theory Spec2Isabelle
  imports Main "HOL-Library.Word" "HOL-Library.Sublist"
begin

text \<open>
  The streaming chat client of the repository: the function \<open>sendChatMessage\<close>, which
  reads the response of \<open>/api/chat\<close> chunk by chunk, frames it into lines and dispatches
  the JSON record of each line to callbacks, and the \<open>Chat\<close> component, which sends,
  accumulates the streamed text and the tool calls in its last message, renders a message
  as text and tool segments, and lists the stored sessions. Both are in
  \<open>src/frontend/src/pages/Chat.tsx\<close>.
\<close>

section \<open>Strings of the host language\<close>

text \<open>
  The program is TypeScript. Its strings are sequences of UTF-16 code units: \<open>length\<close>,
  \<open>substring\<close> and \<open>split\<close> count and cut code units. The bytes read from the
  response body are octets.
\<close>

type_synonym byte = "8 word"
type_synonym code_unit = "16 word"
type_synonym jsstring = "code_unit list"

text \<open>String constants of the source are ASCII; \<open>ascii\<close> writes them as code units.\<close>

definition ascii :: "string \<Rightarrow> jsstring" where
  "ascii = map (\<lambda>c. of_nat (of_char c))"

text \<open>
  \<open>String.prototype.trim\<close> removes the code units of the ECMAScript productions
  WhiteSpace and LineTerminator from both ends.
\<close>

definition is_white_space :: "code_unit \<Rightarrow> bool" where
  "is_white_space c \<longleftrightarrow>
     c \<in> set [0x09, 0x0A, 0x0B, 0x0C, 0x0D, 0x20, 0xA0, 0x1680,
              0x2000, 0x2001, 0x2002, 0x2003, 0x2004, 0x2005, 0x2006, 0x2007,
              0x2008, 0x2009, 0x200A, 0x2028, 0x2029, 0x202F, 0x205F, 0x3000, 0xFEFF]"

definition trim :: "jsstring \<Rightarrow> jsstring" where
  "trim s = rev (dropWhile is_white_space (rev (dropWhile is_white_space s)))"

text \<open>
  \<open>buf.split('\n')\<close>: the pieces between the line feeds, in order. The result is never
  empty: a string without a line feed gives one piece, the string itself.
\<close>

fun split_newline :: "jsstring \<Rightarrow> jsstring list" where
  "split_newline [] = [[]]"
| "split_newline (c # cs) =
     (if c = 0x0A then [] # split_newline cs
      else (case split_newline cs of
              [] \<Rightarrow> [[c]]
            | l # ls \<Rightarrow> (c # l) # ls))"

text \<open>\<open>s.substring(a, b)\<close> for \<open>a \<le> b\<close> and \<open>s.substring(a)\<close>; both clamp at the end of \<open>s\<close>.\<close>

definition substring :: "jsstring \<Rightarrow> nat \<Rightarrow> nat \<Rightarrow> jsstring" where
  "substring s a b = take (b - a) (drop a s)"

definition substring_from :: "jsstring \<Rightarrow> nat \<Rightarrow> jsstring" where
  "substring_from s a = drop a s"


section \<open>The platform: text decoder and JSON parser\<close>

text \<open>
  \<open>sendChatMessage\<close> calls two services of the browser: a \<open>TextDecoder\<close> used with
  \<open>{stream: true}\<close>, and \<open>JSON.parse\<close>. They are parameters of the model.

  The decoder consumes its input byte by byte and keeps its state between calls; that is
  all the model asks of it. \<open>JSON_parse\<close> answers \<open>None\<close> where \<open>JSON.parse\<close> throws, or
  returns \<open>null\<close> (reading a property of \<open>null\<close> throws inside the same \<open>try\<close>), and otherwise
  the three properties the program reads from the parsed value. The wire protocol and the
  handler signatures type these properties as strings; \<open>None\<close> stands for \<open>undefined\<close>,
  and for a \<open>type\<close> that is no string and so equals no \<open>case\<close> label.
\<close>

record wire_obj =
  obj_type :: "jsstring option"
  obj_content :: "jsstring option"
  obj_tool_name :: "jsstring option"

record 'd platform =
  decoder_init :: 'd
  decoder_step :: "'d \<Rightarrow> byte \<Rightarrow> 'd \<times> jsstring"
  JSON_parse :: "jsstring \<Rightarrow> wire_obj option"

text \<open>\<open>decoder.decode(value, {stream: true})\<close>: the new decoder state and the decoded text.\<close>

fun decode :: "'d platform \<Rightarrow> 'd \<Rightarrow> byte list \<Rightarrow> 'd \<times> jsstring" where
  "decode P d [] = (d, [])"
| "decode P d (b # bs) =
     (let (d1, out1) = decoder_step P d b;
          (d2, out2) = decode P d1 bs
      in (d2, out1 @ out2))"


subsection \<open>The browser's decoder and parser\<close>

text \<open>
  One platform is written out, for the concrete runs below: the UTF-8 decoder of the
  Encoding Standard, as \<open>new TextDecoder()\<close> gives it (errors replaced by U+FFFD, a leading
  byte order mark dropped, code points above U+FFFF as surrogate pairs), and \<open>JSON.parse\<close>
  on the texts of the wire protocol: one object whose members are all strings. On every
  other text this parser answers \<open>None\<close>. The general theorems hold for every platform.
\<close>

record utf8_state =
  code_point :: nat
  bytes_seen :: nat
  bytes_needed :: nat
  lower_boundary :: nat
  upper_boundary :: nat
  bom_seen :: bool

definition utf8_init :: utf8_state where
  "utf8_init = \<lparr>code_point = 0, bytes_seen = 0, bytes_needed = 0,
                 lower_boundary = 0x80, upper_boundary = 0xBF, bom_seen = False\<rparr>"

definition utf8_reset :: "utf8_state \<Rightarrow> utf8_state" where
  "utf8_reset st = st\<lparr>code_point := 0, bytes_seen := 0, bytes_needed := 0,
                       lower_boundary := 0x80, upper_boundary := 0xBF\<rparr>"

text \<open>A byte met when no sequence is open.\<close>

definition utf8_lead :: "nat \<Rightarrow> utf8_state \<Rightarrow> utf8_state \<times> nat list" where
  "utf8_lead b st =
     (if b \<le> 0x7F then (st, [b])
      else if 0xC2 \<le> b \<and> b \<le> 0xDF then
        (st\<lparr>code_point := b mod 0x20, bytes_needed := 1\<rparr>, [])
      else if 0xE0 \<le> b \<and> b \<le> 0xEF then
        (st\<lparr>code_point := b mod 0x10, bytes_needed := 2,
            lower_boundary := (if b = 0xE0 then 0xA0 else lower_boundary st),
            upper_boundary := (if b = 0xED then 0x9F else upper_boundary st)\<rparr>, [])
      else if 0xF0 \<le> b \<and> b \<le> 0xF4 then
        (st\<lparr>code_point := b mod 0x08, bytes_needed := 3,
            lower_boundary := (if b = 0xF0 then 0x90 else lower_boundary st),
            upper_boundary := (if b = 0xF4 then 0x8F else upper_boundary st)\<rparr>, [])
      else (st, [0xFFFD]))"

text \<open>
  One byte through the decoder: the code points it completes. A byte that cannot continue
  the open sequence closes it with U+FFFD and is read again as a first byte.
\<close>

definition utf8_handler :: "nat \<Rightarrow> utf8_state \<Rightarrow> utf8_state \<times> nat list" where
  "utf8_handler b st =
     (if bytes_needed st = 0 then utf8_lead b st
      else if b < lower_boundary st \<or> upper_boundary st < b then
        (let (st', out) = utf8_lead b (utf8_reset st) in (st', 0xFFFD # out))
      else
        (let st1 = st\<lparr>code_point := code_point st * 0x40 + b mod 0x40,
                       bytes_seen := bytes_seen st + 1,
                       lower_boundary := 0x80, upper_boundary := 0xBF\<rparr>
         in if bytes_seen st1 \<noteq> bytes_needed st1 then (st1, [])
            else (utf8_reset st1, [code_point st1])))"

definition utf16 :: "nat \<Rightarrow> jsstring" where
  "utf16 cp =
     (if cp < 0x10000 then [of_nat cp]
      else [of_nat (0xD800 + (cp - 0x10000) div 0x400),
            of_nat (0xDC00 + (cp - 0x10000) mod 0x400)])"

text \<open>The code points leave as code units; the first one of the stream is dropped when it is U+FEFF.\<close>

fun utf8_emit :: "utf8_state \<Rightarrow> nat list \<Rightarrow> utf8_state \<times> jsstring" where
  "utf8_emit st [] = (st, [])"
| "utf8_emit st (cp # cps) =
     (let (st', out) = utf8_emit (st\<lparr>bom_seen := True\<rparr>) cps
      in if \<not> bom_seen st \<and> cp = 0xFEFF then (st', out) else (st', utf16 cp @ out))"

definition utf8_step :: "utf8_state \<Rightarrow> byte \<Rightarrow> utf8_state \<times> jsstring" where
  "utf8_step st b = (let (st', cps) = utf8_handler (unat b) st in utf8_emit st' cps)"

definition json_ws :: "code_unit \<Rightarrow> bool" where
  "json_ws c \<longleftrightarrow> c = 0x20 \<or> c = 0x09 \<or> c = 0x0A \<or> c = 0x0D"

definition skip_ws :: "jsstring \<Rightarrow> jsstring" where
  "skip_ws s = dropWhile json_ws s"

definition hex_digit :: "code_unit \<Rightarrow> nat option" where
  "hex_digit c =
     (if 0x30 \<le> c \<and> c \<le> 0x39 then Some (unat c - 0x30)
      else if 0x41 \<le> c \<and> c \<le> 0x46 then Some (unat c - 0x37)
      else if 0x61 \<le> c \<and> c \<le> 0x66 then Some (unat c - 0x57)
      else None)"

definition hex4 :: "code_unit \<Rightarrow> code_unit \<Rightarrow> code_unit \<Rightarrow> code_unit \<Rightarrow> code_unit option" where
  "hex4 a b c d =
     (case (hex_digit a, hex_digit b, hex_digit c, hex_digit d) of
        (Some w, Some x, Some y, Some z) \<Rightarrow> Some (of_nat (((w * 16 + x) * 16 + y) * 16 + z))
      | _ \<Rightarrow> None)"

definition unescape :: "code_unit \<Rightarrow> code_unit option" where
  "unescape e =
     (if e = 0x22 \<or> e = 0x5C \<or> e = 0x2F then Some e
      else if e = 0x62 then Some 0x08
      else if e = 0x66 then Some 0x0C
      else if e = 0x6E then Some 0x0A
      else if e = 0x72 then Some 0x0D
      else if e = 0x74 then Some 0x09
      else None)"

definition cons_result :: "code_unit \<Rightarrow> (jsstring \<times> jsstring) option \<Rightarrow> (jsstring \<times> jsstring) option" where
  "cons_result c r = (case r of None \<Rightarrow> None | Some (s, rest) \<Rightarrow> Some (c # s, rest))"

text \<open>The characters of a JSON string after its opening quote: the string and what follows it.\<close>

fun json_chars :: "jsstring \<Rightarrow> (jsstring \<times> jsstring) option" where
  "json_chars [] = None"
| "json_chars (c # cs) =
     (if c = 0x22 then Some ([], cs)
      else if c = 0x5C then
        (case cs of
           [] \<Rightarrow> None
         | e # r \<Rightarrow>
             if e = 0x75 then
               (case r of
                  h1 # h2 # h3 # h4 # r' \<Rightarrow>
                    (case hex4 h1 h2 h3 h4 of
                       None \<Rightarrow> None
                     | Some u \<Rightarrow> cons_result u (json_chars r'))
                | _ \<Rightarrow> None)
             else
               (case unescape e of
                  None \<Rightarrow> None
                | Some x \<Rightarrow> cons_result x (json_chars r)))
      else if c < 0x20 then None
      else cons_result c (json_chars cs))"

definition json_string :: "jsstring \<Rightarrow> (jsstring \<times> jsstring) option" where
  "json_string s = (case s of [] \<Rightarrow> None | q # r \<Rightarrow> if q = 0x22 then json_chars r else None)"

definition json_member :: "jsstring \<Rightarrow> ((jsstring \<times> jsstring) \<times> jsstring) option" where
  "json_member s =
     (case json_string s of
        None \<Rightarrow> None
      | Some (k, r) \<Rightarrow>
          (case skip_ws r of
             [] \<Rightarrow> None
           | c # r' \<Rightarrow>
               if c = 0x3A then
                 (case json_string (skip_ws r') of
                    None \<Rightarrow> None
                  | Some (v, r'') \<Rightarrow> Some ((k, v), r''))
               else None))"

text \<open>The members of an object after the first brace; \<open>n\<close> bounds their number.\<close>

fun json_members :: "nat \<Rightarrow> jsstring \<Rightarrow> ((jsstring \<times> jsstring) list \<times> jsstring) option" where
  "json_members 0 s = None"
| "json_members (Suc n) s =
     (case json_member s of
        None \<Rightarrow> None
      | Some (kv, r) \<Rightarrow>
          (case skip_ws r of
             [] \<Rightarrow> None
           | c # r' \<Rightarrow>
               if c = 0x7D then Some ([kv], r')
               else if c = 0x2C then
                 (case json_members n (skip_ws r') of
                    None \<Rightarrow> None
                  | Some (kvs, r'') \<Rightarrow> Some (kv # kvs, r''))
               else None))"

definition json_object :: "jsstring \<Rightarrow> (jsstring \<times> jsstring) list option" where
  "json_object s =
     (case skip_ws s of
        [] \<Rightarrow> None
      | c # r \<Rightarrow>
          if c \<noteq> 0x7B then None
          else (case skip_ws r of
                  [] \<Rightarrow> None
                | c' # r' \<Rightarrow>
                    if c' = 0x7D then (if skip_ws r' = [] then Some [] else None)
                    else (case json_members (length r) (skip_ws r) of
                            None \<Rightarrow> None
                          | Some (kvs, rest) \<Rightarrow> if skip_ws rest = [] then Some kvs else None)))"

text \<open>The last member of a name is the one \<open>JSON.parse\<close> keeps.\<close>

definition property :: "(jsstring \<times> jsstring) list \<Rightarrow> string \<Rightarrow> jsstring option" where
  "property kvs name = map_of (rev kvs) (ascii name)"

definition wire_parse :: "jsstring \<Rightarrow> wire_obj option" where
  "wire_parse s =
     (case json_object s of
        None \<Rightarrow> None
      | Some kvs \<Rightarrow>
          Some \<lparr>obj_type = property kvs ''type'',
                obj_content = property kvs ''content'',
                obj_tool_name = property kvs ''tool_name''\<rparr>)"

definition browser :: "utf8_state platform" where
  "browser = \<lparr>decoder_init = utf8_init, decoder_step = utf8_step, JSON_parse = wire_parse\<rparr>"

text \<open>ASCII text as the bytes the server sends.\<close>

definition bytes :: "string \<Rightarrow> byte list" where
  "bytes = map (\<lambda>c. of_nat (of_char c))"


section \<open>sendChatMessage\<close>

text \<open>
  The callbacks of \<open>StreamHandlers\<close> are all optional. A callback is a transformer of the
  caller's state \<open>'s\<close>; the callbacks that \<open>handleSend\<close> passes do not throw.
\<close>

record 's StreamHandlers =
  onSessionId :: "(jsstring option \<Rightarrow> 's \<Rightarrow> 's) option"
  onAIChunk :: "(jsstring option \<Rightarrow> 's \<Rightarrow> 's) option"
  onToolOutput :: "(jsstring option \<Rightarrow> jsstring \<Rightarrow> 's \<Rightarrow> 's) option"
  onError :: "('s \<Rightarrow> 's) option"
  onComplete :: "('s \<Rightarrow> 's) option"

text \<open>The optional calls \<open>h.f?.()\<close>, \<open>h.f?.(x)\<close> and \<open>h.f?.(x, y)\<close>.\<close>

definition call0 :: "('s \<Rightarrow> 's) option \<Rightarrow> 's \<Rightarrow> 's" where
  "call0 f s = (case f of None \<Rightarrow> s | Some g \<Rightarrow> g s)"

definition call1 :: "('a \<Rightarrow> 's \<Rightarrow> 's) option \<Rightarrow> 'a \<Rightarrow> 's \<Rightarrow> 's" where
  "call1 f x s = (case f of None \<Rightarrow> s | Some g \<Rightarrow> g x s)"

definition call2 :: "('a \<Rightarrow> 'b \<Rightarrow> 's \<Rightarrow> 's) option \<Rightarrow> 'a \<Rightarrow> 'b \<Rightarrow> 's \<Rightarrow> 's" where
  "call2 f x y s = (case f of None \<Rightarrow> s | Some g \<Rightarrow> g x y s)"

text \<open>\<open>obj.tool_name || 'tool'\<close>: \<open>undefined\<close> and the empty string are falsy.\<close>

definition tool_name_or_default :: "jsstring option \<Rightarrow> jsstring" where
  "tool_name_or_default n =
     (case n of None \<Rightarrow> ascii ''tool''
      | Some t \<Rightarrow> if t = [] then ascii ''tool'' else t)"

text \<open>
  The body of the \<open>for (const line of lines)\<close> loop: blank lines are skipped, a line that
  does not parse is ignored by the empty \<open>catch\<close>, and the \<open>switch\<close> has no default.
\<close>

definition dispatch_line :: "'d platform \<Rightarrow> 's StreamHandlers \<Rightarrow> jsstring \<Rightarrow> 's \<Rightarrow> 's" where
  "dispatch_line P h line s =
     (if trim line = [] then s
      else (case JSON_parse P line of
              None \<Rightarrow> s
            | Some obj \<Rightarrow>
                if obj_type obj = Some (ascii ''session'') then
                  call1 (onSessionId h) (obj_content obj) s
                else if obj_type obj = Some (ascii ''ai'') then
                  call1 (onAIChunk h) (obj_content obj) s
                else if obj_type obj = Some (ascii ''tool_start'') then s
                else if obj_type obj = Some (ascii ''tool'') then
                  call2 (onToolOutput h) (obj_content obj)
                    (tool_name_or_default (obj_tool_name obj)) s
                else if obj_type obj = Some (ascii ''tool_done'') then s
                else s))"

definition dispatch_lines :: "'d platform \<Rightarrow> 's StreamHandlers \<Rightarrow> jsstring list \<Rightarrow> 's \<Rightarrow> 's" where
  "dispatch_lines P h lines s = fold (dispatch_line P h) lines s"

text \<open>After the loop: what is left in \<open>buf\<close> is parsed, and dispatched when it is an \<open>ai\<close> record.\<close>

definition dispatch_residual :: "'d platform \<Rightarrow> 's StreamHandlers \<Rightarrow> jsstring \<Rightarrow> 's \<Rightarrow> 's" where
  "dispatch_residual P h buf s =
     (if trim buf = [] then s
      else (case JSON_parse P buf of
              None \<Rightarrow> s
            | Some obj \<Rightarrow>
                if obj_type obj = Some (ascii ''ai'') then
                  call1 (onAIChunk h) (obj_content obj) s
                else s))"

text \<open>
  One round of the read loop up to the \<open>for\<close>: decode the chunk onto \<open>buf\<close>, split, and keep
  the last piece as the new \<open>buf\<close>. The result is the complete lines, the decoder state and
  the new \<open>buf\<close>.
\<close>

definition frame_chunk ::
  "'d platform \<Rightarrow> 'd \<Rightarrow> jsstring \<Rightarrow> byte list \<Rightarrow> jsstring list \<times> 'd \<times> jsstring" where
  "frame_chunk P d buf val =
     (let (d', text) = decode P d val;
          lines = split_newline (buf @ text)
      in (butlast lines, d', last lines))"

text \<open>
  \<open>sendChatMessage\<close> is an \<open>async\<close> function: it suspends at \<open>await fetch(...)\<close> and at each
  \<open>await reader.read()\<close>, and the network decides how it resumes. A \<open>phase\<close> is the
  suspended function (at a read: the decoder and \<open>buf\<close>), a \<open>net_event\<close> is what the
  network delivers, and an \<open>outcome\<close> is where the function is after resuming: suspended
  again, returned, or its promise rejected. The response status is delivered with the
  response; the function never looks at it.
\<close>

datatype 'd phase = AwaitFetch | AwaitRead 'd jsstring

datatype net_event =
    FetchRejects
  | FetchResolves nat bool
  | ReadChunk "byte list"
  | ReadDone
  | ReadRejects

datatype error = NetworkError | NoStreamBody

datatype ('d, 's) outcome =
    Suspended "'d phase" 's
  | Returned 's
  | Threw error 's

fun resume ::
  "'d platform \<Rightarrow> 's StreamHandlers \<Rightarrow> 'd phase \<Rightarrow> net_event \<Rightarrow> 's \<Rightarrow> ('d, 's) outcome" where
  "resume P h AwaitFetch FetchRejects s = Threw NetworkError s"
| "resume P h AwaitFetch (FetchResolves status has_body) s =
     (if \<not> has_body then Threw NoStreamBody s
      else Suspended (AwaitRead (decoder_init P) []) s)"
| "resume P h (AwaitRead d buf) (ReadChunk val) s =
     (let (lines, d', buf') = frame_chunk P d buf val
      in Suspended (AwaitRead d' buf') (dispatch_lines P h lines s))"
| "resume P h (AwaitRead d buf) ReadDone s =
     Returned (call0 (onComplete h) (dispatch_residual P h buf s))"
| "resume P h (AwaitRead d buf) ReadRejects s = Threw NetworkError s"
| "resume P h ph ev s = Suspended ph s"

text \<open>
  The function run against the events of its connection. Events after it has returned or
  thrown are not for it; when the events stop early the function is still suspended.
\<close>

fun run_stream ::
  "'d platform \<Rightarrow> 's StreamHandlers \<Rightarrow> 'd phase \<Rightarrow> net_event list \<Rightarrow> 's \<Rightarrow> ('d, 's) outcome" where
  "run_stream P h ph [] s = Suspended ph s"
| "run_stream P h ph (ev # evs) s =
     (case resume P h ph ev s of
        Suspended ph' s' \<Rightarrow> run_stream P h ph' evs s'
      | Returned s' \<Rightarrow> Returned s'
      | Threw e s' \<Rightarrow> Threw e s')"

definition sendChatMessage ::
  "'d platform \<Rightarrow> 's StreamHandlers \<Rightarrow> net_event list \<Rightarrow> 's \<Rightarrow> ('d, 's) outcome" where
  "sendChatMessage P h evs s = run_stream P h AwaitFetch evs s"

text \<open>
  To speak of which callbacks a run invokes, in what order and with what arguments, the
  function is run with callbacks that append their own call to a list.
\<close>

datatype callback =
    OnSessionId "jsstring option"
  | OnAIChunk "jsstring option"
  | OnToolOutput "jsstring option" jsstring
  | OnError
  | OnComplete

definition recorder :: "callback list StreamHandlers" where
  "recorder =
     \<lparr>onSessionId = Some (\<lambda>id log. log @ [OnSessionId id]),
      onAIChunk = Some (\<lambda>chunk log. log @ [OnAIChunk chunk]),
      onToolOutput = Some (\<lambda>output name log. log @ [OnToolOutput output name]),
      onError = Some (\<lambda>log. log @ [OnError]),
      onComplete = Some (\<lambda>log. log @ [OnComplete])\<rparr>"

text \<open>The line-framing stage alone: the lines the read loop yields over a list of chunks.\<close>

fun frame :: "'d platform \<Rightarrow> 'd \<Rightarrow> jsstring \<Rightarrow> byte list list \<Rightarrow> jsstring list \<times> 'd \<times> jsstring" where
  "frame P d buf [] = ([], d, buf)"
| "frame P d buf (val # rest) =
     (let (lines, d', buf') = frame_chunk P d buf val;
          (lines', d'', buf'') = frame P d' buf' rest
      in (lines @ lines', d'', buf''))"


section \<open>The Chat component\<close>

subsection \<open>State\<close>

text \<open>
  \<open>Message\<close> and \<open>ConversationItem\<close> are the interfaces of the source; \<open>toolCalls\<close> and the
  conversation's \<open>timestamp\<close> are optional properties. The component's state is its
  \<open>useState\<close> cells and its two refs.

  A ref changes when it is assigned. A call of \<open>setMessages\<close> does not change \<open>messages\<close>:
  React keeps the argument, a value or an updater function, and applies the arguments it
  has kept, in the order of the calls, at its next render. When that is, React decides:
  it is an event of its own, \<open>Render\<close>, which can fall between any two other events, but
  not inside the run of one. Until then \<open>messages\<close> is what the last render showed and
  \<open>pending\<close> holds the arguments kept. An \<open>updater\<close> is one such argument; the updater
  of \<open>onAIChunk\<close> reads \<open>aiBufferRef.current\<close> when it runs, not when it is passed.

  The other cells (\<open>input\<close>, \<open>sessionId\<close>, \<open>allConvs\<close>, \<open>loading\<close>) are only ever set to
  values and read by later calls; they are taken to change at once.
\<close>

datatype role = User | AI

record ToolCall =
  toolName :: jsstring
  toolOutput :: "jsstring option"
  insertPosition :: nat

record Message =
  msg_type :: role
  content :: jsstring
  timestamp :: nat
  toolCalls :: "ToolCall list option"

record ConversationItem =
  session_id :: jsstring
  user_message :: jsstring
  ai_message :: jsstring
  conv_timestamp :: "int option"

text \<open>
  The four arguments the source passes to \<open>setMessages\<close>: a list (\<open>setMessages(msgs)\<close>,
  \<open>setMessages([])\<close>), the updater of \<open>handleSend\<close> that appends the two new messages, the
  updater of \<open>onAIChunk\<close>, and the updater of \<open>onToolOutput\<close> with the tool call it pushes.
\<close>

datatype updater =
    SetMessages "Message list"
  | AppendMessages "Message list"
  | ShowBuffer
  | PushToolCall ToolCall

record chat_state =
  messages :: "Message list"
  pending :: "updater list"
  input :: jsstring
  sessionId :: "jsstring option"
  allConvs :: "ConversationItem list"
  loading :: bool
  processingRef :: bool
  aiBufferRef :: jsstring

definition initial_chat :: chat_state where
  "initial_chat =
     \<lparr>messages = [], pending = [], input = [], sessionId = None, allConvs = [],
      loading = False, processingRef = False, aiBufferRef = []\<rparr>"

subsection \<open>Updaters and rendering\<close>

text \<open>
  What the updaters of \<open>onAIChunk\<close> and \<open>onToolOutput\<close> have in common: copy the array, and
  change its last element when there is one and it is an \<open>ai\<close> message.
\<close>

definition update_last_ai :: "(Message \<Rightarrow> Message) \<Rightarrow> Message list \<Rightarrow> Message list" where
  "update_last_ai f m =
     (if m \<noteq> [] \<and> msg_type (last m) = AI then butlast m @ [f (last m)] else m)"

text \<open>\<open>last.toolCalls = last.toolCalls || []; last.toolCalls.push(c)\<close>.\<close>

definition push_tool_call :: "ToolCall \<Rightarrow> Message \<Rightarrow> Message" where
  "push_tool_call c m =
     m\<lparr>toolCalls := Some ((case toolCalls m of None \<Rightarrow> [] | Some cs \<Rightarrow> cs) @ [c])\<rparr>"

text \<open>
  React runs one kept argument on the messages \<open>m\<close>; \<open>current\<close> is \<open>aiBufferRef.current\<close>
  at that time.
\<close>

fun run_updater :: "jsstring \<Rightarrow> updater \<Rightarrow> Message list \<Rightarrow> Message list" where
  "run_updater current (SetMessages ms) m = ms"
| "run_updater current (AppendMessages ms) m = m @ ms"
| "run_updater current ShowBuffer m = update_last_ai (\<lambda>x. x\<lparr>content := current\<rparr>) m"
| "run_updater current (PushToolCall c) m = update_last_ai (push_tool_call c) m"

text \<open>The messages a render would show now, and the render itself.\<close>

definition rendered :: "chat_state \<Rightarrow> Message list" where
  "rendered s = fold (run_updater (aiBufferRef s)) (pending s) (messages s)"

definition render :: "chat_state \<Rightarrow> chat_state" where
  "render s = s\<lparr>messages := rendered s, pending := []\<rparr>"

definition setMessages :: "updater \<Rightarrow> chat_state \<Rightarrow> chat_state" where
  "setMessages u s = s\<lparr>pending := pending s @ [u]\<rparr>"

subsection \<open>The callbacks of handleSend\<close>

text \<open>\<open>s += v\<close> on a string: \<open>undefined\<close> is appended as the text \<open>undefined\<close>.\<close>

definition js_concat :: "jsstring \<Rightarrow> jsstring option \<Rightarrow> jsstring" where
  "js_concat s v = (case v of None \<Rightarrow> s @ ascii ''undefined'' | Some t \<Rightarrow> s @ t)"

definition onSessionId_handler :: "jsstring option \<Rightarrow> chat_state \<Rightarrow> chat_state" where
  "onSessionId_handler sid s = s\<lparr>sessionId := sid\<rparr>"

definition onAIChunk_handler :: "jsstring option \<Rightarrow> chat_state \<Rightarrow> chat_state" where
  "onAIChunk_handler chunk s =
     setMessages ShowBuffer (s\<lparr>aiBufferRef := js_concat (aiBufferRef s) chunk\<rparr>)"

text \<open>\<open>pos\<close> is read from the ref when the callback runs, before \<open>setMessages\<close> is called.\<close>

definition onToolOutput_handler :: "jsstring option \<Rightarrow> jsstring \<Rightarrow> chat_state \<Rightarrow> chat_state" where
  "onToolOutput_handler output name s =
     (let pos = length (aiBufferRef s)
      in setMessages
           (PushToolCall \<lparr>toolName = name, toolOutput = output, insertPosition = pos\<rparr>) s)"

definition onComplete_handler :: "chat_state \<Rightarrow> chat_state" where
  "onComplete_handler s = s\<lparr>loading := False, processingRef := False, aiBufferRef := []\<rparr>"

definition onError_handler :: "chat_state \<Rightarrow> chat_state" where
  "onError_handler s = s\<lparr>loading := False, processingRef := False\<rparr>"

definition handlers :: "chat_state StreamHandlers" where
  "handlers =
     \<lparr>onSessionId = Some onSessionId_handler,
      onAIChunk = Some onAIChunk_handler,
      onToolOutput = Some onToolOutput_handler,
      onError = Some onError_handler,
      onComplete = Some onComplete_handler\<rparr>"

text \<open>The \<open>catch\<close> block of \<open>handleSend\<close>.\<close>

definition handleSend_catch :: "chat_state \<Rightarrow> chat_state" where
  "handleSend_catch s = s\<lparr>loading := False, processingRef := False\<rparr>"

subsection \<open>The component and its streams\<close>

text \<open>
  The component together with the calls of \<open>sendChatMessage\<close> that have not returned yet,
  and the bodies of the chat requests issued so far. Nothing in the data limits the
  number of suspended calls: that there is at most one is a theorem.
\<close>

record payload =
  question :: jsstring
  payload_session_id :: "jsstring option"

record 'd app =
  chat :: chat_state
  streams :: "'d phase list"
  requests :: "payload list"

definition initial :: "'d app" where
  "initial = \<lparr>chat = initial_chat, streams = [], requests = []\<rparr>"

text \<open>\<open>sessionId ? {question, session_id: sessionId} : {question}\<close>; the empty string is falsy.\<close>

definition make_payload :: "jsstring \<Rightarrow> jsstring option \<Rightarrow> payload" where
  "make_payload q sid =
     \<lparr>question = q,
      payload_session_id = (case sid of None \<Rightarrow> None | Some i \<Rightarrow> if i = [] then None else Some i)\<rparr>"

text \<open>
  \<open>handleSend\<close> up to its \<open>await\<close>: the guard, the two new messages, and the call of
  \<open>sendChatMessage\<close>, which issues the request and suspends. \<open>now\<close> is \<open>Date.now()\<close>.
\<close>

definition handleSend :: "nat \<Rightarrow> 'd app \<Rightarrow> 'd app" where
  "handleSend now a =
     (let s = chat a; q = trim (input s)
      in if q = [] \<or> loading s \<or> processingRef s then a
         else
           a\<lparr>chat :=
                (setMessages
                   (AppendMessages
                      [\<lparr>msg_type = User, content = q, timestamp = now, toolCalls = None\<rparr>,
                       \<lparr>msg_type = AI, content = [], timestamp = now, toolCalls = Some []\<rparr>])
                   (s\<lparr>processingRef := True, loading := True\<rparr>))
                \<lparr>aiBufferRef := [], input := []\<rparr>,
              requests := requests a @ [make_payload q (sessionId s)],
              streams := streams a @ [AwaitFetch]\<rparr>)"

definition startNew :: "'d app \<Rightarrow> 'd app" where
  "startNew a =
     a\<lparr>chat := (setMessages (SetMessages []) (chat a))
                   \<lparr>sessionId := None, aiBufferRef := [], processingRef := False\<rparr>\<rparr>"

text \<open>\<open>loadSession(sid)\<close> once its request has answered with \<open>data.conversations\<close>.\<close>

definition session_messages :: "nat \<Rightarrow> ConversationItem list \<Rightarrow> Message list" where
  "session_messages now convs =
     concat (map (\<lambda>c.
       [\<lparr>msg_type = User, content = user_message c, timestamp = now, toolCalls = None\<rparr>,
        \<lparr>msg_type = AI, content = ai_message c, timestamp = now, toolCalls = Some []\<rparr>]) convs)"

definition loadSession :: "jsstring \<Rightarrow> ConversationItem list \<Rightarrow> nat \<Rightarrow> 'd app \<Rightarrow> 'd app" where
  "loadSession sid convs now a =
     a\<lparr>chat := (setMessages (SetMessages (session_messages now convs)) (chat a))
                   \<lparr>sessionId := Some sid\<rparr>\<rparr>"

text \<open>\<open>loadAll()\<close> once its request has answered.\<close>

definition loadAll :: "ConversationItem list \<Rightarrow> 'd app \<Rightarrow> 'd app" where
  "loadAll convs a = a\<lparr>chat := (chat a)\<lparr>allConvs := convs\<rparr>\<rparr>"

definition remove_nth :: "nat \<Rightarrow> 'a list \<Rightarrow> 'a list" where
  "remove_nth k xs = take k xs @ drop (Suc k) xs"

text \<open>
  The network resumes the \<open>k\<close>-th suspended call. The call runs with the callbacks of
  \<open>handleSend\<close> on the component's state as it is now; when it throws, the \<open>catch\<close> block
  of \<open>handleSend\<close> runs.
\<close>

definition deliver :: "'d platform \<Rightarrow> nat \<Rightarrow> net_event \<Rightarrow> 'd app \<Rightarrow> 'd app" where
  "deliver P k ev a =
     (if k < length (streams a) then
        (case resume P handlers (streams a ! k) ev (chat a) of
           Suspended ph s \<Rightarrow> a\<lparr>chat := s, streams := (streams a)[k := ph]\<rparr>
         | Returned s \<Rightarrow> a\<lparr>chat := s, streams := remove_nth k (streams a)\<rparr>
         | Threw e s \<Rightarrow> a\<lparr>chat := handleSend_catch s, streams := remove_nth k (streams a)\<rparr>)
      else a)"

text \<open>
  What can happen to the component: the user types, sends or starts a new conversation; a
  request answers: the one of \<open>loadSession\<close>, the one of \<open>loadAll\<close>, or the stream of a
  send; or React renders. \<open>startNew\<close> and \<open>onComplete\<close> also call \<open>loadAll\<close>; its answer is
  an event of its own. \<open>handleDelete\<close> ends in \<open>startNew\<close> or in \<open>loadAll\<close>. Of the requests
  only those of \<open>sendChatMessage\<close> are recorded.
\<close>

datatype event =
    Type jsstring
  | Send nat
  | NewChat
  | SessionLoaded jsstring "ConversationItem list" nat
  | AllLoaded "ConversationItem list"
  | Net nat net_event
  | Render

fun step :: "'d platform \<Rightarrow> event \<Rightarrow> 'd app \<Rightarrow> 'd app" where
  "step P (Type text) a = a\<lparr>chat := (chat a)\<lparr>input := text\<rparr>\<rparr>"
| "step P (Send now) a = handleSend now a"
| "step P NewChat a = startNew a"
| "step P (SessionLoaded sid convs now) a = loadSession sid convs now a"
| "step P (AllLoaded convs) a = loadAll convs a"
| "step P (Net k ev) a = deliver P k ev a"
| "step P Render a = a\<lparr>chat := render (chat a)\<rparr>"

fun run :: "'d platform \<Rightarrow> event list \<Rightarrow> 'd app \<Rightarrow> 'd app" where
  "run P [] a = a"
| "run P (e # es) a = run P es (step P e a)"

text \<open>The events that are not the user's: the network resumes a call, or React renders.\<close>

fun is_background :: "event \<Rightarrow> bool" where
  "is_background (Net k ev) = True"
| "is_background Render = True"
| "is_background e = False"

subsection \<open>Rendering an assistant message\<close>

text \<open>
  The function that renders an \<open>ai\<close> message returns elements of two kinds; the React keys
  are left out. \<open>Array.prototype.sort\<close> is stable, and the comparator orders by
  \<open>insertPosition\<close>, ascending: that is \<open>sort_key insertPosition\<close>.
\<close>

datatype segment =
    MarkdownMessage jsstring
  | ToolOutput "jsstring option" jsstring

text \<open>
  The \<open>for\<close> loop over the sorted calls and the tail after it; \<open>last_cut\<close> is the variable
  \<open>last\<close> of the source.
\<close>

fun segments :: "jsstring \<Rightarrow> nat \<Rightarrow> ToolCall list \<Rightarrow> segment list" where
  "segments text last_cut [] =
     (if last_cut < length text then
        (let tail = substring_from text last_cut
         in if trim tail \<noteq> [] then [MarkdownMessage tail] else [])
      else [])"
| "segments text last_cut (call # rest) =
     (if insertPosition call > last_cut then
        (let seg = substring text last_cut (insertPosition call)
         in if trim seg \<noteq> [] then [MarkdownMessage seg] else [])
      else [])
     @ ToolOutput (toolOutput call) (toolName call)
     # segments text (insertPosition call) rest"

definition interleave :: "Message \<Rightarrow> segment list" where
  "interleave m =
     (case toolCalls m of
        None \<Rightarrow> [MarkdownMessage (content m)]
      | Some calls \<Rightarrow>
          if length calls = 0 then [MarkdownMessage (content m)]
          else segments (content m) 0 (sort_key insertPosition calls))"

subsection \<open>The session list\<close>

text \<open>
  \<open>uniqueSessions\<close>: a \<open>Map\<close> keeps its entries in the order of their first insertion, so it
  is a list of pairs here. \<open>a.timestamp || 0\<close> is the timestamp, or 0 when there is none.
  The comparator \<open>timeB - timeA\<close> orders by time, descending, and the sort is stable.
\<close>

fun fill_map ::
  "(jsstring \<times> ConversationItem) list \<Rightarrow> ConversationItem list \<Rightarrow> (jsstring \<times> ConversationItem) list" where
  "fill_map m [] = m"
| "fill_map m (c # cs) =
     fill_map (if session_id c \<in> set (map fst m) then m else m @ [(session_id c, c)]) cs"

definition time_or_0 :: "ConversationItem \<Rightarrow> int" where
  "time_or_0 c = (case conv_timestamp c of None \<Rightarrow> 0 | Some t \<Rightarrow> t)"

definition uniqueSessions :: "ConversationItem list \<Rightarrow> ConversationItem list" where
  "uniqueSessions convs = sort_key (\<lambda>c. - time_or_0 c) (map snd (fill_map [] convs))"

section \<open>What the specification says, as functions\<close>

text \<open>
  These functions are not in the source. They say in the specification's words what the
  program is to compute, so that the program can be compared with them.

  The events of the specification's data model, and the decoder of its section 4.2: a
  line that is blank, that does not decode, or whose tag is unknown, is no event.
\<close>

datatype stream_event =
    SessionEvent "jsstring option"
  | TextDelta "jsstring option"
  | ToolStarted
  | ToolResult "jsstring option" jsstring
  | ToolFinished

definition decode_event :: "'d platform \<Rightarrow> jsstring \<Rightarrow> stream_event option" where
  "decode_event P line =
     (if trim line = [] then None
      else (case JSON_parse P line of
              None \<Rightarrow> None
            | Some obj \<Rightarrow>
                if obj_type obj = Some (ascii ''session'') then Some (SessionEvent (obj_content obj))
                else if obj_type obj = Some (ascii ''ai'') then Some (TextDelta (obj_content obj))
                else if obj_type obj = Some (ascii ''tool_start'') then Some ToolStarted
                else if obj_type obj = Some (ascii ''tool'') then
                  Some (ToolResult (obj_content obj) (tool_name_or_default (obj_tool_name obj)))
                else if obj_type obj = Some (ascii ''tool_done'') then Some ToolFinished
                else None))"

text \<open>The events of a list of lines, in order.\<close>

definition events_of :: "'d platform \<Rightarrow> jsstring list \<Rightarrow> stream_event list" where
  "events_of P lines = List.map_filter (decode_event P) lines"

text \<open>The dispatch table of section 4.4: the callback an event is to reach.\<close>

fun event_calls :: "stream_event \<Rightarrow> callback list" where
  "event_calls (SessionEvent i) = [OnSessionId i]"
| "event_calls (TextDelta c) = [OnAIChunk c]"
| "event_calls ToolStarted = []"
| "event_calls (ToolResult output name) = [OnToolOutput output name]"
| "event_calls ToolFinished = []"

definition calls_of :: "stream_event list \<Rightarrow> callback list" where
  "calls_of evs = concat (map event_calls evs)"

text \<open>To make a call on a set of callbacks; a callback that is absent is not called.\<close>

fun invoke :: "'s StreamHandlers \<Rightarrow> callback \<Rightarrow> 's \<Rightarrow> 's" where
  "invoke h (OnSessionId i) s = (case onSessionId h of None \<Rightarrow> s | Some f \<Rightarrow> f i s)"
| "invoke h (OnAIChunk c) s = (case onAIChunk h of None \<Rightarrow> s | Some f \<Rightarrow> f c s)"
| "invoke h (OnToolOutput output name) s =
     (case onToolOutput h of None \<Rightarrow> s | Some f \<Rightarrow> f output name s)"
| "invoke h OnError s = (case onError h of None \<Rightarrow> s | Some f \<Rightarrow> f s)"
| "invoke h OnComplete s = (case onComplete h of None \<Rightarrow> s | Some f \<Rightarrow> f s)"

text \<open>
  The deltas of the text events, the text accumulated from them, the ids of the session
  events, and the tool calls of the tool results, each anchored at the length of the text
  accumulated before it.
\<close>

fun deltas :: "stream_event list \<Rightarrow> jsstring option list" where
  "deltas [] = []"
| "deltas (TextDelta c # evs) = c # deltas evs"
| "deltas (e # evs) = deltas evs"

definition accumulated :: "jsstring \<Rightarrow> stream_event list \<Rightarrow> jsstring" where
  "accumulated text evs = foldl js_concat text (deltas evs)"

fun session_event_ids :: "stream_event list \<Rightarrow> jsstring option list" where
  "session_event_ids [] = []"
| "session_event_ids (SessionEvent i # evs) = i # session_event_ids evs"
| "session_event_ids (e # evs) = session_event_ids evs"

fun anchored_calls :: "jsstring \<Rightarrow> stream_event list \<Rightarrow> ToolCall list" where
  "anchored_calls text [] = []"
| "anchored_calls text (TextDelta c # evs) = anchored_calls (js_concat text c) evs"
| "anchored_calls text (ToolResult output name # evs) =
     \<lparr>toolName = name, toolOutput = output, insertPosition = length text\<rparr>
     # anchored_calls text evs"
| "anchored_calls text (e # evs) = anchored_calls text evs"

text \<open>
  The events the program drops when they come last without a line feed: the code after
  the read loop dispatches text deltas only.
\<close>

fun dropped_at_end :: "stream_event \<Rightarrow> bool" where
  "dropped_at_end (SessionEvent i) = True"
| "dropped_at_end (ToolResult output name) = True"
| "dropped_at_end e = False"

text \<open>
  The arguments of the \<open>onSessionId\<close> calls in a list of calls, and the tool calls among
  the arguments kept for \<open>setMessages\<close>.
\<close>

fun session_ids :: "callback list \<Rightarrow> jsstring option list" where
  "session_ids [] = []"
| "session_ids (OnSessionId i # calls) = i # session_ids calls"
| "session_ids (c # calls) = session_ids calls"

fun pushed_calls :: "updater list \<Rightarrow> ToolCall list" where
  "pushed_calls [] = []"
| "pushed_calls (PushToolCall c # us) = c # pushed_calls us"
| "pushed_calls (u # us) = pushed_calls us"

text \<open>
  The pieces of a text between consecutive cut points: from \<open>start\<close> to the first anchor,
  between the anchors, and from the last anchor to the end.
\<close>

fun gaps :: "jsstring \<Rightarrow> nat \<Rightarrow> nat list \<Rightarrow> jsstring list" where
  "gaps text start [] = [drop start text]"
| "gaps text start (a # as) = take (a - start) (drop start text) # gaps text a as"

text \<open>The values of the text segments, the tool segments, and the segment of a tool call.\<close>

fun markdown_values :: "segment list \<Rightarrow> jsstring list" where
  "markdown_values [] = []"
| "markdown_values (MarkdownMessage v # segs) = v # markdown_values segs"
| "markdown_values (ToolOutput out name # segs) = markdown_values segs"

fun tool_segments :: "segment list \<Rightarrow> segment list" where
  "tool_segments [] = []"
| "tool_segments (MarkdownMessage v # segs) = tool_segments segs"
| "tool_segments (ToolOutput out name # segs) = ToolOutput out name # tool_segments segs"

definition tool_segment :: "ToolCall \<Rightarrow> segment" where
  "tool_segment c = ToolOutput (toolOutput c) (toolName c)"

text \<open>
  The place of a session in the input of \<open>uniqueSessions\<close>: the index of the first entry
  with its id.
\<close>

definition first_index :: "ConversationItem list \<Rightarrow> jsstring \<Rightarrow> nat" where
  "first_index convs k = length (takeWhile (\<lambda>c. session_id c \<noteq> k) convs)"

section \<open>Concrete inputs\<close>

text \<open>
  The two chunks of the specification's scenario and their three lines. In both runs the
  user types, sends at time 1, React renders, the response arrives with status 200 and a
  body, and the two chunks are read. In the first React renders before the stream ends,
  in the second only after.
\<close>

definition chunk1 :: "byte list" where
  \<open>chunk1 = bytes ''{"type":"ai","content":"Hel''\<close>

definition chunk2 :: "byte list" where
  \<open>chunk2 = bytes ''lo"}\<newline>{"type":"tool","content":"{'' @ [0x5C] @ bytes ''"x'' @ [0x5C]
     @ bytes ''":1}","tool_name":"t1"}\<newline>{"type":"ai","content":" world"}\<newline>''\<close>

definition scenario_lines :: "jsstring list" where
  \<open>scenario_lines =
     [ascii ''{"type":"ai","content":"Hello"}'',
      ascii ''{"type":"tool","content":"{'' @ [0x5C] @ ascii ''"x'' @ [0x5C]
        @ ascii ''":1}","tool_name":"t1"}'',
      ascii ''{"type":"ai","content":" world"}'']\<close>

definition scenario_rendered_in_time :: "event list" where
  "scenario_rendered_in_time =
     [Type (ascii ''hi''), Send 1, Render, Net 0 (FetchResolves 200 True),
      Net 0 (ReadChunk chunk1), Net 0 (ReadChunk chunk2), Render, Net 0 ReadDone, Render]"

definition scenario_rendered_late :: "event list" where
  "scenario_rendered_late =
     [Type (ascii ''hi''), Send 1, Render, Net 0 (FetchResolves 200 True),
      Net 0 (ReadChunk chunk1), Net 0 (ReadChunk chunk2), Net 0 ReadDone, Render]"

text \<open>
  The component after the user has typed and sent and React has rendered: one call is
  suspended at \<open>fetch\<close>.
\<close>

definition started :: "utf8_state app" where
  "started = run browser [Type (ascii ''hi''), Send 1, Render] initial"

text \<open>
  A stored conversation; a chunk with one \<open>ai\<close> record; a chunk with two \<open>session\<close>
  records and one with a \<open>session\<close> record whose id is empty; and a chunk with a line
  that is no JSON, a \<open>tool\<close> record, and a last \<open>ai\<close> record without a line feed.
\<close>

definition stored :: ConversationItem where
  "stored = \<lparr>session_id = ascii ''s1'', user_message = ascii ''old question'',
             ai_message = ascii ''old answer'', conv_timestamp = Some 5\<rparr>"

definition chunk_B :: "byte list" where
  \<open>chunk_B = bytes ''{"type":"ai","content":"B"}\<newline>''\<close>

definition two_sessions :: "byte list" where
  \<open>two_sessions = bytes ''{"type":"session","content":"s1"}\<newline>{"type":"session","content":"s2"}\<newline>''\<close>

definition empty_session :: "byte list" where
  \<open>empty_session = bytes ''{"type":"session","content":""}\<newline>''\<close>


text \<open>
  An assistant message whose text is blank and which has no tool calls, and one with three
  tool calls, two of them at the same position.
\<close>

definition blank_message :: Message where
  "blank_message = \<lparr>msg_type = AI, content = ascii ''  '', timestamp = 0, toolCalls = Some []\<rparr>"

definition tied_message :: Message where
  \<open>tied_message =
     \<lparr>msg_type = AI, content = ascii ''Hello world'', timestamp = 1,
      toolCalls = Some
        [\<lparr>toolName = ascii ''t1'', toolOutput = Some (ascii ''a''), insertPosition = 5\<rparr>,
         \<lparr>toolName = ascii ''t2'', toolOutput = Some (ascii ''b''), insertPosition = 6\<rparr>,
         \<lparr>toolName = ascii ''t3'', toolOutput = Some (ascii ''c''), insertPosition = 5\<rparr>]\<rparr>\<close>

text \<open>
  Session summaries: two of session \<open>a\<close>, one without a timestamp, one with a negative
  one, and one with the same time as the first of \<open>a\<close>.
\<close>

definition conv_a5 :: ConversationItem where
  "conv_a5 = \<lparr>session_id = ascii ''a'', user_message = ascii ''first'', ai_message = [],
              conv_timestamp = Some 5\<rparr>"

definition conv_b10 :: ConversationItem where
  "conv_b10 = \<lparr>session_id = ascii ''b'', user_message = ascii ''other'', ai_message = [],
               conv_timestamp = Some 10\<rparr>"

definition conv_a1 :: ConversationItem where
  "conv_a1 = \<lparr>session_id = ascii ''a'', user_message = ascii ''second'', ai_message = [],
              conv_timestamp = Some 1\<rparr>"

definition conv_undated :: ConversationItem where
  "conv_undated = \<lparr>session_id = ascii ''u'', user_message = [], ai_message = [],
                   conv_timestamp = None\<rparr>"

definition conv_old :: ConversationItem where
  "conv_old = \<lparr>session_id = ascii ''o'', user_message = [], ai_message = [],
               conv_timestamp = Some (- 3)\<rparr>"

definition conv_c5 :: ConversationItem where
  "conv_c5 = \<lparr>session_id = ascii ''c'', user_message = [], ai_message = [],
              conv_timestamp = Some 5\<rparr>"

section \<open>Line framing\<close>

lemma split_newline_nonempty: "split_newline s \<noteq> []"
  by (induction s) (auto split: list.splits)

lemma split_newline_append:
  "split_newline (s @ t) =
     butlast (split_newline s) @ split_newline (last (split_newline s) @ t)"
proof (induction s)
  case Nil
  show ?case by simp
next
  case (Cons c s)
  obtain l ls where sp: "split_newline s = l # ls"
    using split_newline_nonempty [of s] by (cases "split_newline s") auto
  obtain l' ls' where sp': "split_newline (s @ t) = l' # ls'"
    using split_newline_nonempty [of "s @ t"] by (cases "split_newline (s @ t)") auto
  show ?case
  proof (cases "c = 0x0A")
    case True
    with Cons sp show ?thesis by simp
  next
    case False
    show ?thesis
    proof (cases ls)
      case Nil
      with Cons sp False show ?thesis by simp
    next
      case (Cons a as)
      with Cons.IH sp False show ?thesis by simp
    qed
  qed
qed

lemma decode_append:
  "decode P d (xs @ ys) =
     (let (d1, out1) = decode P d xs; (d2, out2) = decode P d1 ys in (d2, out1 @ out2))"
  by (induction xs arbitrary: d) (auto split: prod.splits)

lemma split_newline_no_newline: "0x0A \<notin> set s \<Longrightarrow> split_newline s = [s]"
  by (induction s) auto

lemma last_split_newline_no_newline: "0x0A \<notin> set (last (split_newline s))"
proof (induction s)
  case Nil
  show ?case by simp
next
  case (Cons c s)
  then show ?case
    using split_newline_nonempty [of s] by (auto split: list.splits)
qed

lemma frame_concat:
  "0x0A \<notin> set buf \<Longrightarrow>
   frame P d buf cs =
     (let (d', text) = decode P d (concat cs);
          lines = split_newline (buf @ text)
      in (butlast lines, d', last lines))"
proof (induction cs arbitrary: d buf)
  case Nil
  then show ?case by (simp add: split_newline_no_newline)
next
  case (Cons c cs)
  obtain d1 t1 where c1: "decode P d c = (d1, t1)" by (cases "decode P d c")
  obtain d2 t2 where c2: "decode P d1 (concat cs) = (d2, t2)"
    by (cases "decode P d1 (concat cs)")
  have whole: "decode P d (concat (c # cs)) = (d2, t1 @ t2)"
    by (simp add: decode_append c1 c2)
  have sp: "split_newline (buf @ t1 @ t2) =
      butlast (split_newline (buf @ t1)) @ split_newline (last (split_newline (buf @ t1)) @ t2)"
    using split_newline_append [of "buf @ t1" t2] by simp
  have ne: "split_newline (last (split_newline (buf @ t1)) @ t2) \<noteq> []"
    by (rule split_newline_nonempty)
  have ih: "frame P d1 (last (split_newline (buf @ t1))) cs =
      (butlast (split_newline (last (split_newline (buf @ t1)) @ t2)), d2,
       last (split_newline (last (split_newline (buf @ t1)) @ t2)))"
    using Cons.IH [OF last_split_newline_no_newline, of d1 "buf @ t1"]
    by (simp add: c2 Let_def)
  show ?case
    unfolding frame.simps whole
    by (simp add: frame_chunk_def c1 ih sp ne butlast_append Let_def)
qed

lemma run_stream_chunks:
  "run_stream P h (AwaitRead d buf) (map ReadChunk cs @ evs) s =
     (let (lines, d', buf') = frame P d buf cs
      in run_stream P h (AwaitRead d' buf') evs (dispatch_lines P h lines s))"
proof (induction cs arbitrary: d buf s)
  case Nil
  show ?case by (simp add: dispatch_lines_def)
next
  case (Cons c cs)
  show ?case
    by (simp add: Cons.IH dispatch_lines_def split: prod.splits)
qed

text \<open>
  C3. However the bytes of a response body are sliced into chunks, the framing stage yields
  the same complete lines, the same decoder state and the same residual buffer; and
  \<open>sendChatMessage\<close>, with any callbacks and from any caller state, ends in the same
  outcome, whatever follows the chunks (end of stream, a failed read, or nothing yet). The
  chunk boundaries are arbitrary byte offsets, so they may fall inside a multi-byte
  character or inside a JSON record.
\<close>

theorem framing_independent_of_chunking:
  "concat cs1 = concat cs2 \<Longrightarrow>
     frame P (decoder_init P) [] cs1 = frame P (decoder_init P) [] cs2 \<and>
     sendChatMessage P h (FetchResolves status True # map ReadChunk cs1 @ evs) s =
     sendChatMessage P h (FetchResolves status True # map ReadChunk cs2 @ evs) s"
proof -
  assume eq: "concat cs1 = concat cs2"
  have fr: "frame P (decoder_init P) [] cs1 = frame P (decoder_init P) [] cs2"
    by (simp add: frame_concat eq)
  show ?thesis
    by (simp add: sendChatMessage_def run_stream_chunks fr)
qed

lemmas browser_defs =
  browser_def utf8_init_def utf8_step_def utf8_handler_def utf8_lead_def utf8_reset_def
  utf16_def bytes_def ascii_def

lemma parse_ai_n_eacute:
  \<open>wire_parse (ascii ''{"type":"ai","content":"n'' @ [0xE9] @ ascii ''"}'') =
     Some \<lparr>obj_type = Some (ascii ''ai''), obj_content = Some (ascii ''n'' @ [0xE9]),
           obj_tool_name = None\<rparr>\<close>
  by code_simp

theorem framing_independent_of_chunking_witness:
  \<open>concat [bytes ''{"type":"ai","content":"n'' @ [0xC3], [0xA9] @ bytes ''"}\<newline>'']
     = concat [bytes ''{"type":"ai","content":"n'' @ [0xC3, 0xA9] @ bytes ''"}\<newline>''] \<and>
   frame browser (decoder_init browser) []
     [bytes ''{"type":"ai","content":"n'' @ [0xC3], [0xA9] @ bytes ''"}\<newline>'']
     = frame browser (decoder_init browser) []
         [bytes ''{"type":"ai","content":"n'' @ [0xC3, 0xA9] @ bytes ''"}\<newline>''] \<and>
   sendChatMessage browser recorder
     (FetchResolves 200 True #
      map ReadChunk [bytes ''{"type":"ai","content":"n'' @ [0xC3], [0xA9] @ bytes ''"}\<newline>'']
      @ [ReadDone]) []
     = sendChatMessage browser recorder
         (FetchResolves 200 True #
          map ReadChunk [bytes ''{"type":"ai","content":"n'' @ [0xC3, 0xA9] @ bytes ''"}\<newline>'']
          @ [ReadDone]) [] \<and>
   sendChatMessage browser recorder
     (FetchResolves 200 True #
      map ReadChunk [bytes ''{"type":"ai","content":"n'' @ [0xC3], [0xA9] @ bytes ''"}\<newline>'']
      @ [ReadDone]) []
     = Returned [OnAIChunk (Some (ascii ''n'' @ [0xE9])), OnComplete]\<close>
proof -
  have run: \<open>sendChatMessage browser recorder
     (FetchResolves 200 True #
      map ReadChunk [bytes ''{"type":"ai","content":"n'' @ [0xC3], [0xA9] @ bytes ''"}\<newline>'']
      @ [ReadDone]) []
     = Returned [OnAIChunk (Some (ascii ''n'' @ [0xE9])), OnComplete]\<close>
    using parse_ai_n_eacute
    by (simp add: sendChatMessage_def frame_chunk_def dispatch_lines_def dispatch_line_def
        dispatch_residual_def recorder_def call0_def call1_def trim_def is_white_space_def
        browser_defs)
  show ?thesis
    using framing_independent_of_chunking
      [of "[bytes ''{\"type\":\"ai\",\"content\":\"n'' @ [0xC3], [0xA9] @ bytes ''\"}\<newline>'']"
          "[bytes ''{\"type\":\"ai\",\"content\":\"n'' @ [0xC3, 0xA9] @ bytes ''\"}\<newline>'']"
          browser recorder 200 "[ReadDone]" "[]"]
      run
    by simp
qed

section \<open>Evaluation on the concrete inputs\<close>

lemmas chat_defs =
  initial_def initial_chat_def handleSend_def make_payload_def startNew_def loadSession_def
  session_messages_def loadAll_def deliver_def remove_nth_def handleSend_catch_def
  handlers_def onSessionId_handler_def onAIChunk_handler_def onToolOutput_handler_def
  onComplete_handler_def onError_handler_def update_last_ai_def push_tool_call_def js_concat_def
  tool_name_or_default_def setMessages_def render_def rendered_def

lemmas stream_defs =
  sendChatMessage_def frame_chunk_def dispatch_lines_def dispatch_line_def dispatch_residual_def
  call0_def call1_def call2_def trim_def is_white_space_def

lemma handlers_fields:
  "onSessionId handlers = Some onSessionId_handler"
  "onAIChunk handlers = Some onAIChunk_handler"
  "onToolOutput handlers = Some onToolOutput_handler"
  "onError handlers = Some onError_handler"
  "onComplete handlers = Some onComplete_handler"
  by (simp_all add: handlers_def)

lemma recorder_fields:
  "onSessionId recorder = Some (\<lambda>i log. log @ [OnSessionId i])"
  "onAIChunk recorder = Some (\<lambda>chunk log. log @ [OnAIChunk chunk])"
  "onToolOutput recorder = Some (\<lambda>output name log. log @ [OnToolOutput output name])"
  "onError recorder = Some (\<lambda>log. log @ [OnError])"
  "onComplete recorder = Some (\<lambda>log. log @ [OnComplete])"
  by (simp_all add: recorder_def)

lemma type_tags_distinct:
  "ascii ''session'' \<noteq> ascii ''ai''"
  "ascii ''session'' \<noteq> ascii ''tool_start''"
  "ascii ''session'' \<noteq> ascii ''tool''"
  "ascii ''session'' \<noteq> ascii ''tool_done''"
  "ascii ''ai'' \<noteq> ascii ''session''"
  "ascii ''ai'' \<noteq> ascii ''tool_start''"
  "ascii ''ai'' \<noteq> ascii ''tool''"
  "ascii ''ai'' \<noteq> ascii ''tool_done''"
  "ascii ''tool_start'' \<noteq> ascii ''session''"
  "ascii ''tool_start'' \<noteq> ascii ''ai''"
  "ascii ''tool_start'' \<noteq> ascii ''tool''"
  "ascii ''tool_start'' \<noteq> ascii ''tool_done''"
  "ascii ''tool'' \<noteq> ascii ''session''"
  "ascii ''tool'' \<noteq> ascii ''ai''"
  "ascii ''tool'' \<noteq> ascii ''tool_start''"
  "ascii ''tool'' \<noteq> ascii ''tool_done''"
  "ascii ''tool_done'' \<noteq> ascii ''session''"
  "ascii ''tool_done'' \<noteq> ascii ''ai''"
  "ascii ''tool_done'' \<noteq> ascii ''tool_start''"
  "ascii ''tool_done'' \<noteq> ascii ''tool''"
  by (simp_all add: ascii_def)

lemma parse_hello:
  \<open>wire_parse (ascii ''{"type":"ai","content":"Hello"}'') =
     Some \<lparr>obj_type = Some (ascii ''ai''), obj_content = Some (ascii ''Hello''),
           obj_tool_name = None\<rparr>\<close>
  by code_simp

lemma parse_tool_t1:
  \<open>wire_parse (ascii ''{"type":"tool","content":"{'' @ [0x5C] @ ascii ''"x'' @ [0x5C]
       @ ascii ''":1}","tool_name":"t1"}'') =
     Some \<lparr>obj_type = Some (ascii ''tool''), obj_content = Some (ascii ''{"x":1}''),
           obj_tool_name = Some (ascii ''t1'')\<rparr>\<close>
  by code_simp

lemma parse_world:
  \<open>wire_parse (ascii ''{"type":"ai","content":" world"}'') =
     Some \<lparr>obj_type = Some (ascii ''ai''), obj_content = Some (ascii '' world''),
           obj_tool_name = None\<rparr>\<close>
  by code_simp

lemmas scenario_parses =
  parse_hello [unfolded ascii_def, simplified]
  parse_tool_t1 [unfolded ascii_def, simplified]
  parse_world [unfolded ascii_def, simplified]

lemma parse_error_body:
  \<open>wire_parse (ascii ''{"detail":"Internal Server Error"}'') =
     Some \<lparr>obj_type = None, obj_content = None, obj_tool_name = None\<rparr>\<close>
  by code_simp

lemma parse_B:
  \<open>wire_parse (ascii ''{"type":"ai","content":"B"}'') =
     Some \<lparr>obj_type = Some (ascii ''ai''), obj_content = Some (ascii ''B''),
           obj_tool_name = None\<rparr>\<close>
  by code_simp


lemma parse_tool_x:
  \<open>wire_parse (ascii ''{"type":"tool","content":"x","tool_name":"t1"}'') =
     Some \<lparr>obj_type = Some (ascii ''tool''), obj_content = Some (ascii ''x''),
           obj_tool_name = Some (ascii ''t1'')\<rparr>\<close>
  by code_simp


lemma parse_s1:
  \<open>wire_parse (ascii ''{"type":"session","content":"s1"}'') =
     Some \<lparr>obj_type = Some (ascii ''session''), obj_content = Some (ascii ''s1''),
           obj_tool_name = None\<rparr>\<close>
  by code_simp

lemma parse_s2:
  \<open>wire_parse (ascii ''{"type":"session","content":"s2"}'') =
     Some \<lparr>obj_type = Some (ascii ''session''), obj_content = Some (ascii ''s2''),
           obj_tool_name = None\<rparr>\<close>
  by code_simp

lemma parse_s_empty:
  \<open>wire_parse (ascii ''{"type":"session","content":""}'') =
     Some \<lparr>obj_type = Some (ascii ''session''), obj_content = Some [],
           obj_tool_name = None\<rparr>\<close>
  by code_simp

lemmas session_parses =
  parse_s1 [unfolded ascii_def, simplified] parse_s2 [unfolded ascii_def, simplified]
  parse_s_empty [unfolded ascii_def, simplified]


lemma started_eq:
  "started =
     \<lparr>chat = \<lparr>messages =
                [\<lparr>msg_type = User, content = ascii ''hi'', timestamp = 1, toolCalls = None\<rparr>,
                 \<lparr>msg_type = AI, content = [], timestamp = 1, toolCalls = Some []\<rparr>],
              pending = [], input = [], sessionId = None, allConvs = [], loading = True,
              processingRef = True, aiBufferRef = []\<rparr>,
      streams = [AwaitFetch],
      requests = [\<lparr>question = ascii ''hi'', payload_session_id = None\<rparr>]\<rparr>"
  by (simp add: started_def chat_defs trim_def is_white_space_def ascii_def Let_def)

section \<open>Running a send\<close>


lemma dispatch_lines_Cons:
  "dispatch_lines P h (x # xs) s = dispatch_lines P h xs (dispatch_line P h x s)"
  by (simp add: dispatch_lines_def)

lemma run_stream_done:
  "frame P (decoder_init P) [] cs = (lines, d, buf) \<Longrightarrow>
   sendChatMessage P h (FetchResolves status True # map ReadChunk cs @ [ReadDone]) s =
     Returned (call0 (onComplete h) (dispatch_residual P h buf (dispatch_lines P h lines s)))"
  by (simp add: sendChatMessage_def run_stream_chunks)

lemma run_no_stream: "streams a = [] \<Longrightarrow> run P (map (Net k) evs) a = a"
  by (induction evs) (simp_all add: deliver_def)

lemma run_single:
  "streams a = [ph] \<Longrightarrow>
   run P (map (Net 0) evs) a =
     (case run_stream P handlers ph evs (chat a) of
        Suspended ph' s' \<Rightarrow> a\<lparr>chat := s', streams := [ph']\<rparr>
      | Returned s' \<Rightarrow> a\<lparr>chat := s', streams := []\<rparr>
      | Threw e s' \<Rightarrow> a\<lparr>chat := handleSend_catch s', streams := []\<rparr>)"
proof (induction evs arbitrary: a ph)
  case Nil
  then show ?case by simp
next
  case (Cons ev evs)
  show ?case
  proof (cases "resume P handlers ph ev (chat a)")
    case (Suspended ph' s')
    let ?a' = "a\<lparr>chat := s', streams := [ph']\<rparr>"
    have st: "deliver P 0 ev a = ?a'"
      using Cons.prems Suspended by (simp add: deliver_def)
    have "streams ?a' = [ph']" by simp
    from Cons.IH [OF this] st Suspended show ?thesis
      by (simp split: outcome.splits)
  next
    case (Returned s')
    have st: "deliver P 0 ev a = a\<lparr>chat := s', streams := []\<rparr>"
      using Cons.prems Returned by (simp add: deliver_def remove_nth_def)
    show ?thesis
      using Returned by (simp add: st run_no_stream)
  next
    case (Threw e s')
    have st: "deliver P 0 ev a = a\<lparr>chat := handleSend_catch s', streams := []\<rparr>"
      using Cons.prems Threw by (simp add: deliver_def remove_nth_def)
    show ?thesis
      using Threw by (simp add: st run_no_stream)
  qed
qed

lemma run_snoc: "run P (evs @ [e]) a = step P e (run P evs a)"
  by (induction evs arbitrary: a) simp_all

lemma run_append: "run P (xs @ ys) a = run P ys (run P xs a)"
  by (induction xs arbitrary: a) simp_all

lemma dispatch_lines_ignore_error_complete:
  "dispatch_lines P (h\<lparr>onError := e, onComplete := c\<rparr>) ls s = dispatch_lines P h ls s"
proof -
  have "dispatch_line P (h\<lparr>onError := e, onComplete := c\<rparr>) = dispatch_line P h"
    by (rule ext, rule ext) (simp add: dispatch_line_def split: option.splits)
  then show ?thesis by (simp add: dispatch_lines_def)
qed

section \<open>Lines as events\<close>

text \<open>
  The loop of \<open>sendChatMessage\<close> makes the calls of the events of its lines, in order; the
  code after the loop makes the calls of the event in the buffer unless it is one that is
  dropped there.
\<close>

lemma events_of_Nil: "events_of P [] = []"
  by (simp add: events_of_def)

lemma events_of_Cons:
  "events_of P (line # lines) =
     (case decode_event P line of None \<Rightarrow> [] | Some e \<Rightarrow> [e]) @ events_of P lines"
  by (simp add: events_of_def split: option.splits)

lemma events_of_append: "events_of P (xs @ ys) = events_of P xs @ events_of P ys"
  by (induction xs) (simp_all add: events_of_Nil events_of_Cons)

lemma calls_of_append: "calls_of (xs @ ys) = calls_of xs @ calls_of ys"
  by (simp add: calls_of_def)

lemma calls_of_Cons: "calls_of (e # evs) = event_calls e @ calls_of evs"
  by (simp add: calls_of_def)

lemma dispatch_line_invoke:
  "dispatch_line P h line s = fold (invoke h) (calls_of (events_of P [line])) s"
  by (simp add: dispatch_line_def decode_event_def events_of_Cons events_of_Nil calls_of_def
      call1_def call2_def split: option.splits)

lemma dispatch_lines_invoke:
  "dispatch_lines P h lines s = fold (invoke h) (calls_of (events_of P lines)) s"
proof (induction lines arbitrary: s)
  case Nil
  show ?case by (simp add: dispatch_lines_def events_of_Nil calls_of_def)
next
  case (Cons line lines)
  have "events_of P (line # lines) = events_of P [line] @ events_of P lines"
    using events_of_append [of P "[line]" lines] by simp
  then show ?case
    by (simp add: dispatch_lines_Cons Cons.IH dispatch_line_invoke calls_of_append)
qed

lemma dispatch_residual_invoke:
  "dispatch_residual P h buf s =
     fold (invoke h) (calls_of (filter (\<lambda>e. \<not> dropped_at_end e) (events_of P [buf]))) s"
  by (simp add: dispatch_residual_def decode_event_def events_of_Cons events_of_Nil calls_of_def
      call1_def type_tags_distinct split: option.splits)

lemma invoke_recorder: "invoke recorder c log = log @ [c]"
  by (cases c) (simp_all add: recorder_def)

lemma fold_invoke_recorder: "fold (invoke recorder) calls log = log @ calls"
  by (induction calls arbitrary: log) (simp_all add: invoke_recorder)



lemma pushed_calls_append: "pushed_calls (xs @ ys) = pushed_calls xs @ pushed_calls ys"
  by (induction xs rule: pushed_calls.induct) simp_all

lemma session_event_ids_append:
  "session_event_ids (xs @ ys) = session_event_ids xs @ session_event_ids ys"
  by (induction xs rule: session_event_ids.induct) simp_all


lemma session_ids_append: "session_ids (xs @ ys) = session_ids xs @ session_ids ys"
  by (induction xs rule: session_ids.induct) simp_all

lemma session_ids_calls_of: "session_ids (calls_of evs) = session_event_ids evs"
  by (induction evs rule: session_event_ids.induct) (simp_all add: calls_of_def)

lemma accumulated_Cons:
  "accumulated text (e # evs) =
     accumulated (case e of TextDelta c \<Rightarrow> js_concat text c | _ \<Rightarrow> text) evs"
  by (cases e) (simp_all add: accumulated_def)



lemma session_event_ids_not_dropped:
  "session_event_ids (filter (\<lambda>e. \<not> dropped_at_end e) evs) = []"
  by (induction evs rule: session_event_ids.induct) simp_all

text \<open>
  What the callbacks of \<open>handleSend\<close> make of a list of events.
\<close>

lemma handlers_on_events:
  "aiBufferRef (fold (invoke handlers) (calls_of evs) s) = accumulated (aiBufferRef s) evs \<and>
   pushed_calls (pending (fold (invoke handlers) (calls_of evs) s))
     = pushed_calls (pending s) @ anchored_calls (aiBufferRef s) evs \<and>
   sessionId (fold (invoke handlers) (calls_of evs) s)
     = (if session_event_ids evs = [] then sessionId s else last (session_event_ids evs)) \<and>
   messages (fold (invoke handlers) (calls_of evs) s) = messages s \<and>
   input (fold (invoke handlers) (calls_of evs) s) = input s \<and>
   loading (fold (invoke handlers) (calls_of evs) s) = loading s \<and>
   processingRef (fold (invoke handlers) (calls_of evs) s) = processingRef s"
proof (induction evs arbitrary: s)
  case Nil
  show ?case by (simp add: calls_of_def accumulated_def)
next
  case (Cons e evs)
  show ?case
  proof (cases e)
    case (SessionEvent i)
    with Cons.IH [of "onSessionId_handler i s"] show ?thesis
      by (simp add: calls_of_Cons handlers_fields accumulated_Cons onSessionId_handler_def)
  next
    case (TextDelta c)
    with Cons.IH [of "onAIChunk_handler c s"] show ?thesis
      by (simp add: calls_of_Cons handlers_fields accumulated_Cons onAIChunk_handler_def
          setMessages_def pushed_calls_append)
  next
    case ToolStarted
    with Cons.IH [of s] show ?thesis
      by (simp add: calls_of_Cons accumulated_Cons)
  next
    case (ToolResult out name)
    with Cons.IH [of "onToolOutput_handler out name s"] show ?thesis
      by (simp add: calls_of_Cons handlers_fields accumulated_Cons onToolOutput_handler_def
          setMessages_def pushed_calls_append Let_def)
  next
    case ToolFinished
    with Cons.IH [of s] show ?thesis
      by (simp add: calls_of_Cons accumulated_Cons)
  qed
qed

section \<open>Transport failures\<close>

text \<open>
  C1, as the program has it. A send fails in transport when the request is rejected, when
  the response has no body, or when a read of the body is rejected. In each case
  \<open>sendChatMessage\<close> throws: it returns no value, its state is the one reached by the
  lines dispatched so far, and neither \<open>onError\<close> nor \<open>onComplete\<close> is called (replacing
  the two callbacks changes nothing). In \<open>handleSend\<close> the \<open>catch\<close> block then runs, once:
  the call is over, \<open>loading\<close> and the guard \<open>processingRef\<close> are cleared, and the messages
  with their partial text and tool calls, and the accumulated text, stay as they were at
  the failure.
\<close>

theorem transport_failure:
  "sendChatMessage P h (FetchRejects # evs) s = Threw NetworkError s \<and>
   sendChatMessage P h (FetchResolves status False # evs) s = Threw NoStreamBody s \<and>
   sendChatMessage P h (FetchResolves status True # map ReadChunk cs @ ReadRejects # evs) s =
     Threw NetworkError (dispatch_lines P h (fst (frame P (decoder_init P) [] cs)) s) \<and>
   dispatch_lines P (h\<lparr>onError := e, onComplete := c\<rparr>) ls s = dispatch_lines P h ls s \<and>
   (streams a = [AwaitFetch] \<longrightarrow>
      run P (map (Net 0) (FetchRejects # evs)) a =
        a\<lparr>chat := (chat a)\<lparr>loading := False, processingRef := False\<rparr>, streams := []\<rparr> \<and>
      run P (map (Net 0) (FetchResolves status False # evs)) a =
        a\<lparr>chat := (chat a)\<lparr>loading := False, processingRef := False\<rparr>, streams := []\<rparr> \<and>
      run P (map (Net 0) (FetchResolves status True # map ReadChunk cs @ ReadRejects # evs)) a =
        a\<lparr>chat := (dispatch_lines P handlers (fst (frame P (decoder_init P) [] cs)) (chat a))
                    \<lparr>loading := False, processingRef := False\<rparr>,
          streams := []\<rparr>)"
proof -
  have 1: "sendChatMessage P h (FetchRejects # evs) s = Threw NetworkError s"
    by (simp add: sendChatMessage_def)
  have 2: "sendChatMessage P h (FetchResolves status False # evs) s = Threw NoStreamBody s"
    by (simp add: sendChatMessage_def)
  have 3: "sendChatMessage P h (FetchResolves status True # map ReadChunk cs @ ReadRejects # evs) s =
     Threw NetworkError (dispatch_lines P h (fst (frame P (decoder_init P) [] cs)) s)"
    by (simp add: sendChatMessage_def run_stream_chunks split: prod.splits)
  have r1: "run_stream P handlers AwaitFetch (FetchRejects # evs) s = Threw NetworkError s" for s
    by simp
  have r2: "run_stream P handlers AwaitFetch (FetchResolves status False # evs) s = Threw NoStreamBody s" for s
    by simp
  have r3: "run_stream P handlers AwaitFetch (FetchResolves status True # map ReadChunk cs @ ReadRejects # evs) s =
     Threw NetworkError (dispatch_lines P handlers (fst (frame P (decoder_init P) [] cs)) s)" for s
    by (simp add: run_stream_chunks split: prod.splits)
  have app: "streams a = [AwaitFetch] \<longrightarrow>
      run P (map (Net 0) (FetchRejects # evs)) a =
        a\<lparr>chat := (chat a)\<lparr>loading := False, processingRef := False\<rparr>, streams := []\<rparr> \<and>
      run P (map (Net 0) (FetchResolves status False # evs)) a =
        a\<lparr>chat := (chat a)\<lparr>loading := False, processingRef := False\<rparr>, streams := []\<rparr> \<and>
      run P (map (Net 0) (FetchResolves status True # map ReadChunk cs @ ReadRejects # evs)) a =
        a\<lparr>chat := (dispatch_lines P handlers (fst (frame P (decoder_init P) [] cs)) (chat a))
                    \<lparr>loading := False, processingRef := False\<rparr>,
          streams := []\<rparr>"
  proof
    assume st: "streams a = [AwaitFetch]"
    show "run P (map (Net 0) (FetchRejects # evs)) a =
        a\<lparr>chat := (chat a)\<lparr>loading := False, processingRef := False\<rparr>, streams := []\<rparr> \<and>
      run P (map (Net 0) (FetchResolves status False # evs)) a =
        a\<lparr>chat := (chat a)\<lparr>loading := False, processingRef := False\<rparr>, streams := []\<rparr> \<and>
      run P (map (Net 0) (FetchResolves status True # map ReadChunk cs @ ReadRejects # evs)) a =
        a\<lparr>chat := (dispatch_lines P handlers (fst (frame P (decoder_init P) [] cs)) (chat a))
                    \<lparr>loading := False, processingRef := False\<rparr>,
          streams := []\<rparr>"
      by (simp only: run_single [OF st] r1 r2 r3 outcome.case handleSend_catch_def simp_thms)
  qed
  show ?thesis
    by (intro conjI 1 2 3 dispatch_lines_ignore_error_complete app)
qed

text \<open>
  The claim as written fails twice. When the request is rejected, \<open>onError\<close> is not called
  at all. And a response with status 500 and a body is read like any other: nothing is
  reported and \<open>onComplete\<close> is called.
\<close>

theorem transport_failure_counterexample:
  \<open>sendChatMessage browser recorder [FetchRejects] [] = Threw NetworkError [] \<and>
   sendChatMessage browser recorder
     [FetchResolves 500 True, ReadChunk (bytes ''{"detail":"Internal Server Error"}''), ReadDone] []
     = Returned [OnComplete]\<close>
  using parse_error_body [unfolded ascii_def, simplified]
  by (simp add: stream_defs recorder_def browser_defs)

text \<open>
  A run of the theorem: the first chunk of the scenario and the end of its first record
  arrive, then the connection breaks. The text \<open>Hello\<close> stays accumulated, and it is what
  the message shows at the next render.
\<close>

theorem transport_failure_witness:
  \<open>streams started = [AwaitFetch] \<and>
   run browser (map (Net 0) (FetchResolves 200 True # map ReadChunk [chunk1, bytes ''lo"}\<newline>''] @ [ReadRejects])) started
     = started\<lparr>chat := (dispatch_lines browser handlers
                  (fst (frame browser (decoder_init browser) [] [chunk1, bytes ''lo"}\<newline>''])) (chat started))
                    \<lparr>loading := False, processingRef := False\<rparr>,
          streams := []\<rparr> \<and>
   aiBufferRef (chat (run browser
     (map (Net 0) (FetchResolves 200 True # map ReadChunk [chunk1, bytes ''lo"}\<newline>''] @ [ReadRejects])) started))
     = ascii ''Hello'' \<and>
   content (last (rendered (chat (run browser
     (map (Net 0) (FetchResolves 200 True # map ReadChunk [chunk1, bytes ''lo"}\<newline>''] @ [ReadRejects])) started))))
     = ascii ''Hello''\<close>
proof -
  have st: "streams started = [AwaitFetch]"
    by (simp add: started_eq)
  have b: \<open>aiBufferRef (dispatch_lines browser handlers
      (fst (frame browser (decoder_init browser) [] [chunk1, bytes ''lo"}\<newline>''])) (chat started))
      = ascii ''Hello''\<close>
    using scenario_parses
    by (simp add: started_eq chunk1_def chat_defs stream_defs browser_defs Let_def)
  have c: \<open>content (last (rendered ((dispatch_lines browser handlers
      (fst (frame browser (decoder_init browser) [] [chunk1, bytes ''lo"}\<newline>''])) (chat started))
        \<lparr>loading := False, processingRef := False\<rparr>)))
      = ascii ''Hello''\<close>
    using scenario_parses
    by (simp add: started_eq chunk1_def chat_defs stream_defs browser_defs Let_def)
  show ?thesis
    using transport_failure [of browser handlers "[]" "chat started" 200
        \<open>[chunk1, bytes ''lo"}\<newline>'']\<close> None None "[]" started] st b c
    by simp
qed

section \<open>A stream that outlives its transcript\<close>

lemma update_last_ai_length: "length (update_last_ai f m) = length m"
  by (simp add: update_last_ai_def)

lemma run_updater_length:
  "length m1 = length m2 \<Longrightarrow> length (run_updater b1 u m1) = length (run_updater b2 u m2)"
  by (cases u) (simp_all add: update_last_ai_length)

lemma fold_run_updater_length:
  "length m1 = length m2 \<Longrightarrow>
   length (fold (run_updater b1) us m1) = length (fold (run_updater b2) us m2)"
proof (induction us arbitrary: m1 m2)
  case Nil
  then show ?case by simp
next
  case (Cons u us)
  from run_updater_length [OF Cons.prems, of b1 u b2]
  show ?case by (simp add: Cons.IH)
qed

lemma rendered_empty_buffer:
  "rendered (s\<lparr>aiBufferRef := b\<rparr>) = [] \<longleftrightarrow> rendered s = []"
proof -
  have "length (fold (run_updater b) (pending s) (messages s)) =
      length (fold (run_updater (aiBufferRef s)) (pending s) (messages s))"
    by (rule fold_run_updater_length) simp
  then have "(fold (run_updater b) (pending s) (messages s) = []) =
      (fold (run_updater (aiBufferRef s)) (pending s) (messages s) = [])"
    by (metis length_0_conv)
  then show ?thesis by (simp add: rendered_def)
qed

lemma rendered_empty_setMessages:
  "rendered s = [] \<Longrightarrow> u = ShowBuffer \<or> (\<exists>c. u = PushToolCall c) \<Longrightarrow>
   rendered (setMessages u s) = []"
  by (auto simp: rendered_def setMessages_def update_last_ai_def)

lemma invoke_handlers_empty:
  "rendered s = [] \<Longrightarrow> c \<noteq> OnError \<Longrightarrow> rendered (invoke handlers c s) = []"
proof (cases c)
  case (OnSessionId i)
  assume "rendered s = []"
  then show ?thesis
    by (simp add: OnSessionId handlers_fields onSessionId_handler_def rendered_def)
next
  case (OnAIChunk d)
  assume "rendered s = []"
  then have "rendered (s\<lparr>aiBufferRef := js_concat (aiBufferRef s) d\<rparr>) = []"
    by (simp only: rendered_empty_buffer)
  then show ?thesis
    by (simp add: OnAIChunk handlers_fields onAIChunk_handler_def rendered_empty_setMessages)
next
  case (OnToolOutput out name)
  assume "rendered s = []"
  then show ?thesis
    by (simp add: OnToolOutput handlers_fields onToolOutput_handler_def Let_def
        rendered_empty_setMessages)
next
  case OnError
  assume "c \<noteq> OnError"
  with OnError show ?thesis by simp
next
  case OnComplete
  assume "rendered s = []"
  then have "rendered (s\<lparr>aiBufferRef := []\<rparr>) = []"
    by (simp only: rendered_empty_buffer)
  then show ?thesis
    by (simp add: OnComplete handlers_fields onComplete_handler_def rendered_def)
qed

lemma fold_invoke_handlers_empty:
  "rendered s = [] \<Longrightarrow> OnError \<notin> set calls \<Longrightarrow> rendered (fold (invoke handlers) calls s) = []"
  by (induction calls arbitrary: s) (auto simp: invoke_handlers_empty)

lemma calls_of_no_error: "OnError \<notin> set (calls_of evs)"
proof (induction evs)
  case Nil
  show ?case by (simp add: calls_of_def)
next
  case (Cons e evs)
  then show ?case by (cases e) (simp_all add: calls_of_def)
qed

lemma dispatch_lines_empty:
  "rendered s = [] \<Longrightarrow> rendered (dispatch_lines P handlers ls s) = []"
  by (simp add: dispatch_lines_invoke fold_invoke_handlers_empty calls_of_no_error)

lemma dispatch_residual_empty:
  "rendered s = [] \<Longrightarrow> rendered (dispatch_residual P handlers b s) = []"
  by (simp add: dispatch_residual_invoke fold_invoke_handlers_empty calls_of_no_error)

lemma onComplete_empty: "rendered s = [] \<Longrightarrow> rendered (onComplete_handler s) = []"
  using invoke_handlers_empty [of s OnComplete] by (simp add: handlers_fields)

lemma resume_empty:
  "rendered s = [] \<Longrightarrow>
   (case resume P handlers ph ev s of
      Suspended ph' s' \<Rightarrow> rendered s' = []
    | Returned s' \<Rightarrow> rendered s' = []
    | Threw e s' \<Rightarrow> rendered s' = [])"
  by (cases "(P, handlers, ph, ev, s)" rule: resume.cases)
     (auto simp: dispatch_lines_empty dispatch_residual_empty onComplete_empty
        handlers_fields call0_def split: prod.splits)

lemma deliver_empty:
  "rendered (chat a) = [] \<Longrightarrow> rendered (chat (deliver P k ev a)) = []"
  using resume_empty [of "chat a" P "streams a ! k" ev]
  by (auto simp: deliver_def handleSend_catch_def rendered_def split: outcome.splits)

lemma rendered_render: "rendered (render s) = rendered s"
  by (simp add: render_def rendered_def)

lemma run_background_empty:
  "rendered (chat a) = [] \<Longrightarrow> \<forall>e \<in> set evs. is_background e \<Longrightarrow>
   rendered (chat (run P evs a)) = []"
proof (induction evs arbitrary: a)
  case Nil
  then show ?case by simp
next
  case (Cons e evs)
  have "rendered (chat (step P e a)) = []"
  proof (cases e)
    case (Net k ev)
    with Cons.prems(1) show ?thesis by (simp add: deliver_empty)
  next
    case Render
    with Cons.prems(1) show ?thesis by (simp add: rendered_render)
  qed (use Cons.prems(2) in simp_all)
  with Cons show ?case by simp
qed

text \<open>
  C2, as the program has it. After the user has started a new conversation, whatever the
  network still delivers to the calls in flight, and whenever React renders in between,
  the message list stays empty, and with it the tool calls: at every moment a render
  would show no message, and once React has rendered the list is empty. Every such event
  yields a state, none escapes as an exception (a rejected read ends in the \<open>catch\<close> block
  of \<open>handleSend\<close>).
\<close>

theorem stale_stream_after_startNew:
  "\<forall>e \<in> set evs. is_background e \<Longrightarrow>
   rendered (chat (run P evs (startNew a))) = [] \<and>
   messages (chat (run P (evs @ [Render]) (startNew a))) = []"
proof -
  assume bg: "\<forall>e \<in> set evs. is_background e"
  have "rendered (chat (startNew a)) = []"
    by (simp add: startNew_def setMessages_def rendered_def)
  from run_background_empty [OF this bg]
  have r: "rendered (chat (run P evs (startNew a))) = []" .
  then show ?thesis
    by (simp add: run_snoc render_def)
qed

text \<open>
  The callbacks do not check which transcript they write to. After the user has switched
  to a stored session, a chunk of the old stream replaces the text of the stored answer;
  and after a new conversation was started, it is appended to the accumulated text, which
  \<open>startNew\<close> had emptied.
\<close>

theorem stale_stream_counterexample:
  \<open>content (last (messages (chat (run browser
      [Net 0 (FetchResolves 200 True), SessionLoaded (ascii ''s1'') [stored] 2, Render] started))))
     = ascii ''old answer'' \<and>
   content (last (messages (chat (run browser
      [Net 0 (FetchResolves 200 True), SessionLoaded (ascii ''s1'') [stored] 2, Render,
       Net 0 (ReadChunk chunk_B), Render] started))))
     = ascii ''B'' \<and>
   aiBufferRef (chat (run browser [Net 0 (FetchResolves 200 True), NewChat, Render] started)) = [] \<and>
   aiBufferRef (chat (run browser
      [Net 0 (FetchResolves 200 True), NewChat, Render, Net 0 (ReadChunk chunk_B), Render] started))
     = ascii ''B''\<close>
  using parse_B [unfolded ascii_def, simplified]
  by (simp add: started_eq stored_def chunk_B_def chat_defs stream_defs browser_defs Let_def)

text \<open>
  A run of the theorem: a new conversation is started while the send is in flight; the
  response, a chunk and the end of the stream follow, with a render in between.
\<close>

theorem stale_stream_after_startNew_witness:
  \<open>is_background (Net 0 (FetchResolves 200 True)) \<and> is_background (Net 0 (ReadChunk chunk_B)) \<and>
   is_background Render \<and> is_background (Net 0 ReadDone) \<and>
   rendered (chat (run browser
      [Net 0 (FetchResolves 200 True), Net 0 (ReadChunk chunk_B), Render, Net 0 ReadDone]
      (startNew started))) = [] \<and>
   messages (chat (run browser
      ([Net 0 (FetchResolves 200 True), Net 0 (ReadChunk chunk_B), Render, Net 0 ReadDone] @ [Render])
      (startNew started))) = [] \<and>
   messages (chat started) \<noteq> []\<close>
  using stale_stream_after_startNew
    [of "[Net 0 (FetchResolves 200 True), Net 0 (ReadChunk chunk_B), Render, Net 0 ReadDone]"
        browser started]
  by (simp add: started_eq)

section \<open>Anchors of tool calls\<close>

text \<open>
  The tool calls a list of lines makes the component push are those of its tool results,
  each anchored at the length of the text accumulated when its line is dispatched: every
  delta dispatched before it is counted.
\<close>

lemma tool_calls_anchored:
  "pushed_calls (pending (dispatch_lines P handlers lines s))
     = pushed_calls (pending s) @ anchored_calls (aiBufferRef s) (events_of P lines)"
  using handlers_on_events [of "events_of P lines" s]
  by (simp add: dispatch_lines_invoke)

lemma scenario_late_run:
  \<open>messages (chat (run browser scenario_rendered_late initial)) =
     [\<lparr>msg_type = User, content = ascii ''hi'', timestamp = 1, toolCalls = None\<rparr>,
      \<lparr>msg_type = AI, content = [], timestamp = 1,
       toolCalls = Some [\<lparr>toolName = ascii ''t1'', toolOutput = Some (ascii ''{"x":1}''),
                          insertPosition = 5\<rparr>]\<rparr>]\<close>
  using scenario_parses
  by (simp add: scenario_rendered_late_def chunk1_def chunk2_def chat_defs stream_defs
      browser_defs Let_def)

lemma scenario_in_time_run:
  \<open>messages (chat (run browser scenario_rendered_in_time initial)) =
     [\<lparr>msg_type = User, content = ascii ''hi'', timestamp = 1, toolCalls = None\<rparr>,
      \<lparr>msg_type = AI, content = ascii ''Hello world'', timestamp = 1,
       toolCalls = Some [\<lparr>toolName = ascii ''t1'', toolOutput = Some (ascii ''{"x":1}''),
                          insertPosition = 5\<rparr>]\<rparr>]\<close>
  using scenario_parses
  by (simp add: scenario_rendered_in_time_def chunk1_def chunk2_def chat_defs stream_defs
      browser_defs Let_def)

text \<open>
  C4. The anchor of a tool call is read from the accumulated text when \<open>onToolOutput\<close>
  runs. The text of the message is not set then: the updater of \<open>onAIChunk\<close> reads
  \<open>aiBufferRef.current\<close> when React runs it, and \<open>onComplete\<close> empties that cell. When the
  stream of the scenario ends before React has rendered the last delta, the message ends
  with the empty text and the tool call \<open>t1\<close> at 5, and it renders as the tool alone: the
  text \<open>Hello world\<close> is lost. Only when React renders between the last chunk and the end
  of the stream is the final text \<open>Hello world\<close>, with the tool call \<open>t1\<close> at 5, rendered
  as the text \<open>Hello\<close>, the tool \<open>t1\<close>, and the text \<open> world\<close>.
\<close>

theorem scenario_text_lost_when_rendered_late:
  \<open>messages (chat (run browser scenario_rendered_late initial)) =
     [\<lparr>msg_type = User, content = ascii ''hi'', timestamp = 1, toolCalls = None\<rparr>,
      \<lparr>msg_type = AI, content = [], timestamp = 1,
       toolCalls = Some [\<lparr>toolName = ascii ''t1'', toolOutput = Some (ascii ''{"x":1}''),
                          insertPosition = 5\<rparr>]\<rparr>] \<and>
   interleave (last (messages (chat (run browser scenario_rendered_late initial)))) =
     [ToolOutput (Some (ascii ''{"x":1}'')) (ascii ''t1'')] \<and>
   messages (chat (run browser scenario_rendered_in_time initial)) =
     [\<lparr>msg_type = User, content = ascii ''hi'', timestamp = 1, toolCalls = None\<rparr>,
      \<lparr>msg_type = AI, content = ascii ''Hello world'', timestamp = 1,
       toolCalls = Some [\<lparr>toolName = ascii ''t1'', toolOutput = Some (ascii ''{"x":1}''),
                          insertPosition = 5\<rparr>]\<rparr>] \<and>
   interleave (last (messages (chat (run browser scenario_rendered_in_time initial)))) =
     [MarkdownMessage (ascii ''Hello''),
      ToolOutput (Some (ascii ''{"x":1}'')) (ascii ''t1''),
      MarkdownMessage (ascii '' world'')]\<close>
  by (simp add: scenario_late_run scenario_in_time_run interleave_def substring_def
      substring_from_def trim_def is_white_space_def ascii_def)

section \<open>Interleaving text and tool calls\<close>

lemma markdown_values_append: "markdown_values (xs @ ys) = markdown_values xs @ markdown_values ys"
  by (induction xs rule: markdown_values.induct) auto

lemma tool_segments_append: "tool_segments (xs @ ys) = tool_segments xs @ tool_segments ys"
  by (induction xs rule: tool_segments.induct) auto

lemma segments_tools: "tool_segments (segments text start calls) = map tool_segment calls"
  by (induction calls arbitrary: start) (auto simp: tool_segments_append tool_segment_def Let_def)

lemma segments_texts:
  "concat (markdown_values (segments text start calls)) =
   concat (filter (\<lambda>g. trim g \<noteq> []) (gaps text start (map insertPosition calls)))"
proof (induction calls arbitrary: start)
  case Nil
  show ?case by (simp add: substring_from_def Let_def trim_def)
next
  case (Cons c calls)
  show ?case
    by (simp add: Cons.IH markdown_values_append substring_def Let_def trim_def)
qed

lemma segments_nonblank:
  "v \<in> set (markdown_values (segments text start calls)) \<Longrightarrow> trim v \<noteq> []"
  by (induction calls arbitrary: start) (auto simp: markdown_values_append Let_def split: if_splits)

lemma gaps_concat: "sorted (start # as) \<Longrightarrow> concat (gaps text start as) = drop start text"
proof (induction as arbitrary: start)
  case Nil
  show ?case by simp
next
  case (Cons a as)
  then have le: "start \<le> a" and s: "sorted (a # as)" by auto
  have "take (a - start) (drop start text) @ drop a text = drop start text"
    using le append_take_drop_id [of "a - start" "drop start text"] by simp
  with Cons.IH [OF s] show ?case by simp
qed

text \<open>
  C5, as the program has it. \<open>interleave\<close> is a function of the message, so equal inputs
  give equal outputs. Without tool calls the whole text is one text segment, whatever it
  is. With tool calls, the tool segments are the calls sorted by anchor, ascending, calls
  with equal anchors in their order of arrival; the anchors cut the text into pieces that
  make up the text; and the text segments, concatenated, are the pieces that are not
  blank, each text segment being one of them.
\<close>

theorem interleave_segments:
  "((toolCalls m = None \<or> toolCalls m = Some []) \<longrightarrow> interleave m = [MarkdownMessage (content m)]) \<and>
   (toolCalls m = Some calls \<and> calls \<noteq> [] \<longrightarrow>
      tool_segments (interleave m) = map tool_segment (sort_key insertPosition calls) \<and>
      sorted (map insertPosition (sort_key insertPosition calls)) \<and>
      (\<forall>k. filter (\<lambda>c. insertPosition c = k) (sort_key insertPosition calls)
           = filter (\<lambda>c. insertPosition c = k) calls) \<and>
      concat (gaps (content m) 0 (map insertPosition (sort_key insertPosition calls))) = content m \<and>
      concat (markdown_values (interleave m)) =
        concat (filter (\<lambda>g. trim g \<noteq> [])
                  (gaps (content m) 0 (map insertPosition (sort_key insertPosition calls)))) \<and>
      (\<forall>v \<in> set (markdown_values (interleave m)). trim v \<noteq> []))"
proof (intro conjI impI)
  assume "toolCalls m = None \<or> toolCalls m = Some []"
  then show "interleave m = [MarkdownMessage (content m)]"
    by (auto simp: interleave_def)
next
  assume h: "toolCalls m = Some calls \<and> calls \<noteq> []"
  then have i: "interleave m = segments (content m) 0 (sort_key insertPosition calls)"
    by (simp add: interleave_def)
  show "tool_segments (interleave m) = map tool_segment (sort_key insertPosition calls)"
    by (simp only: i segments_tools)
  show "sorted (map insertPosition (sort_key insertPosition calls))"
    by simp
  show "\<forall>k. filter (\<lambda>c. insertPosition c = k) (sort_key insertPosition calls)
           = filter (\<lambda>c. insertPosition c = k) calls"
    by (simp add: sort_key_stable)
  show "concat (gaps (content m) 0 (map insertPosition (sort_key insertPosition calls))) = content m"
    using gaps_concat [of 0 "map insertPosition (sort_key insertPosition calls)" "content m"]
    by simp
  show "concat (markdown_values (interleave m)) =
        concat (filter (\<lambda>g. trim g \<noteq> [])
                  (gaps (content m) 0 (map insertPosition (sort_key insertPosition calls))))"
    by (simp only: i segments_texts)
  show "\<forall>v \<in> set (markdown_values (interleave m)). trim v \<noteq> []"
    using segments_nonblank by (simp only: i) blast
qed

text \<open>
  The claim as written fails for a blank text without tool calls: the only gap is blank,
  yet it is emitted as a text segment.
\<close>

theorem interleave_blank_counterexample:
  "toolCalls blank_message = Some [] \<and>
   interleave blank_message = [MarkdownMessage (ascii ''  '')] \<and>
   trim (ascii ''  '') = []"
  by (simp add: blank_message_def interleave_def ascii_def trim_def is_white_space_def)

theorem interleave_segments_witness:
  \<open>toolCalls tied_message = Some
        [\<lparr>toolName = ascii ''t1'', toolOutput = Some (ascii ''a''), insertPosition = 5\<rparr>,
         \<lparr>toolName = ascii ''t2'', toolOutput = Some (ascii ''b''), insertPosition = 6\<rparr>,
         \<lparr>toolName = ascii ''t3'', toolOutput = Some (ascii ''c''), insertPosition = 5\<rparr>] \<and>
   interleave tied_message =
     [MarkdownMessage (ascii ''Hello''),
      ToolOutput (Some (ascii ''a'')) (ascii ''t1''),
      ToolOutput (Some (ascii ''c'')) (ascii ''t3''),
      ToolOutput (Some (ascii ''b'')) (ascii ''t2''),
      MarkdownMessage (ascii ''world'')] \<and>
   gaps (content tied_message) 0 [5, 5, 6] = [ascii ''Hello'', [], ascii '' '', ascii ''world''] \<and>
   concat (markdown_values (interleave tied_message)) = ascii ''Helloworld''\<close>
proof -
  define calls where "calls =
        [\<lparr>toolName = ascii ''t1'', toolOutput = Some (ascii ''a''), insertPosition = 5\<rparr>,
         \<lparr>toolName = ascii ''t2'', toolOutput = Some (ascii ''b''), insertPosition = 6\<rparr>,
         \<lparr>toolName = ascii ''t3'', toolOutput = Some (ascii ''c''), insertPosition = 5\<rparr>]"
  have t: "toolCalls tied_message = Some calls"
    by (simp add: tied_message_def calls_def)
  have ne: "calls \<noteq> []"
    by (simp add: calls_def)
  have s: "map insertPosition (sort_key insertPosition calls) = [5, 5, 6]"
    by (simp add: calls_def)
  have g: \<open>gaps (content tied_message) 0 [5, 5, 6]
      = [ascii ''Hello'', [], ascii '' '', ascii ''world'']\<close>
    by (simp add: tied_message_def ascii_def)
  have f: \<open>concat (filter (\<lambda>g. trim g \<noteq> []) [ascii ''Hello'', [], ascii '' '', ascii ''world''])
      = ascii ''Helloworld''\<close>
    by (simp add: trim_def is_white_space_def ascii_def)
  from interleave_segments [of tied_message calls] t ne
  have tools: "tool_segments (interleave tied_message) = map tool_segment (sort_key insertPosition calls)"
    and c: "concat (markdown_values (interleave tied_message)) =
        concat (filter (\<lambda>g. trim g \<noteq> [])
                  (gaps (content tied_message) 0 (map insertPosition (sort_key insertPosition calls))))"
    by blast+
  have i: \<open>interleave tied_message =
     [MarkdownMessage (ascii ''Hello''),
      ToolOutput (Some (ascii ''a'')) (ascii ''t1''),
      ToolOutput (Some (ascii ''c'')) (ascii ''t3''),
      ToolOutput (Some (ascii ''b'')) (ascii ''t2''),
      MarkdownMessage (ascii ''world'')]\<close>
    by (simp add: tied_message_def interleave_def substring_def substring_from_def trim_def
        is_white_space_def ascii_def)
  show ?thesis
    using t [unfolded calls_def] i g c [unfolded s g f] by blast
qed

section \<open>Lines that do not decode\<close>







section \<open>Single flight\<close>

lemma invoke_handlers_loading:
  "c \<noteq> OnError \<Longrightarrow> c \<noteq> OnComplete \<Longrightarrow> loading (invoke handlers c s) = loading s"
  by (cases c)
     (simp_all add: handlers_fields onSessionId_handler_def onAIChunk_handler_def
        onToolOutput_handler_def setMessages_def Let_def)

lemma calls_of_no_complete: "OnComplete \<notin> set (calls_of evs)"
proof (induction evs)
  case Nil
  show ?case by (simp add: calls_of_def)
next
  case (Cons e evs)
  then show ?case by (cases e) (simp_all add: calls_of_def)
qed

lemma fold_invoke_handlers_loading:
  "OnError \<notin> set calls \<Longrightarrow> OnComplete \<notin> set calls \<Longrightarrow>
   loading (fold (invoke handlers) calls s) = loading s"
proof (induction calls arbitrary: s)
  case Nil
  show ?case by simp
next
  case (Cons c calls)
  from Cons.prems have c: "c \<noteq> OnError" "c \<noteq> OnComplete"
    and rest: "OnError \<notin> set calls" "OnComplete \<notin> set calls"
    by auto
  have "loading (fold (invoke handlers) calls (invoke handlers c s)) = loading (invoke handlers c s)"
    using rest by (rule Cons.IH)
  also have "\<dots> = loading s"
    using c by (rule invoke_handlers_loading)
  finally show ?case by simp
qed

lemma dispatch_lines_loading: "loading (dispatch_lines P handlers ls s) = loading s"
  by (simp add: dispatch_lines_invoke fold_invoke_handlers_loading calls_of_no_error
      calls_of_no_complete)

lemma resume_loading:
  "resume P handlers ph ev s = Suspended ph' s' \<Longrightarrow> loading s' = loading s"
  by (cases "(P, handlers, ph, ev, s)" rule: resume.cases)
     (auto simp: dispatch_lines_loading split: prod.splits if_splits)

lemma step_single_flight:
  assumes "length (streams a) \<le> 1" and "streams a \<noteq> [] \<longrightarrow> loading (chat a)"
  shows "length (streams (step P e a)) \<le> 1 \<and>
         (streams (step P e a) \<noteq> [] \<longrightarrow> loading (chat (step P e a)))"
proof (cases e)
  case (Send now)
  with assms show ?thesis by (auto simp: handleSend_def setMessages_def Let_def)
next
  case (Net k ev)
  show ?thesis
  proof (cases "k < length (streams a)")
    case False
    with assms Net show ?thesis by (simp add: deliver_def)
  next
    case True
    with assms obtain ph where st: "streams a = [ph]" and k: "k = 0"
      by (cases "streams a") auto
    from assms st have l: "loading (chat a)" by simp
    show ?thesis
    proof (cases "resume P handlers ph ev (chat a)")
      case (Suspended ph' s')
      then have "loading s'" using resume_loading l by metis
      with Suspended Net st k show ?thesis by (simp add: deliver_def)
    next
      case (Returned s')
      with Net st k show ?thesis by (simp add: deliver_def remove_nth_def)
    next
      case (Threw err s')
      with Net st k show ?thesis by (simp add: deliver_def remove_nth_def)
    qed
  qed
qed (use assms in \<open>simp_all add: startNew_def loadSession_def loadAll_def setMessages_def render_def\<close>)

lemma run_single_flight:
  "length (streams a) \<le> 1 \<Longrightarrow> (streams a \<noteq> [] \<longrightarrow> loading (chat a)) \<Longrightarrow>
   length (streams (run P evs a)) \<le> 1 \<and>
   (streams (run P evs a) \<noteq> [] \<longrightarrow> loading (chat (run P evs a)))"
proof (induction evs arbitrary: a)
  case Nil
  then show ?case by simp
next
  case (Cons e evs)
  from step_single_flight [OF Cons.prems, of P e] Cons.IH [of "step P e a"]
  show ?case by simp
qed

text \<open>
  C7. Whatever the user and the network have done since the component was mounted, at most
  one call of \<open>sendChatMessage\<close> is in flight; and while one is, \<open>handleSend\<close> changes
  nothing: no request is issued, no message added, no call started, and the state, the
  guard and the call in flight are as before.
\<close>

theorem single_flight:
  "length (streams (run P evs initial)) \<le> 1 \<and>
   (streams (run P evs initial) \<noteq> [] \<longrightarrow>
      handleSend now (run P evs initial) = run P evs initial)"
proof -
  have "length (streams (run P evs initial)) \<le> 1 \<and>
     (streams (run P evs initial) \<noteq> [] \<longrightarrow> loading (chat (run P evs initial)))"
    by (rule run_single_flight) (simp_all add: initial_def)
  then show ?thesis by (auto simp: handleSend_def Let_def)
qed

text \<open>
  A run of the theorem: a second send while the first is in flight.
\<close>

theorem single_flight_witness:
  \<open>streams (run browser [Type (ascii ''hi''), Send 1, Render, Type (ascii ''again'')] initial) \<noteq> [] \<and>
   handleSend 2 (run browser [Type (ascii ''hi''), Send 1, Render, Type (ascii ''again'')] initial)
     = run browser [Type (ascii ''hi''), Send 1, Render, Type (ascii ''again'')] initial \<and>
   requests (handleSend 2 (run browser [Type (ascii ''hi''), Send 1, Render, Type (ascii ''again'')] initial))
     = [\<lparr>question = ascii ''hi'', payload_session_id = None\<rparr>]\<close>
proof -
  have "streams (run browser [Type (ascii ''hi''), Send 1, Render, Type (ascii ''again'')] initial) \<noteq> []"
    by (simp add: chat_defs trim_def is_white_space_def ascii_def Let_def)
  moreover have "requests (run browser [Type (ascii ''hi''), Send 1, Render, Type (ascii ''again'')] initial)
     = [\<lparr>question = ascii ''hi'', payload_session_id = None\<rparr>]"
    by (simp add: chat_defs trim_def is_white_space_def ascii_def Let_def)
  ultimately show ?thesis
    using single_flight [of browser "[Type (ascii ''hi''), Send 1, Render, Type (ascii ''again'')]" 2]
    by simp
qed

section \<open>The residual buffer\<close>

text \<open>
  C8. The claim asks that what is left in the buffer at the end of the stream be
  dispatched like a line. The loop dispatches \<open>session\<close>, \<open>ai\<close> and \<open>tool\<close> records; the
  code after the loop dispatches \<open>ai\<close> records only. A \<open>tool\<close> record without a final
  line feed is lost: only \<open>onComplete\<close> is called. The same record with the line feed
  reaches \<open>onToolOutput\<close>.
\<close>

theorem residual_tool_record_not_dispatched:
  \<open>sendChatMessage browser recorder
     [FetchResolves 200 True,
      ReadChunk (bytes ''{"type":"tool","content":"x","tool_name":"t1"}''), ReadDone] []
     = Returned [OnComplete] \<and>
   sendChatMessage browser recorder
     [FetchResolves 200 True,
      ReadChunk (bytes ''{"type":"tool","content":"x","tool_name":"t1"}\<newline>''), ReadDone] []
     = Returned [OnToolOutput (Some (ascii ''x'')) (ascii ''t1''), OnComplete]\<close>
  using parse_tool_x [unfolded ascii_def, simplified]
  by (simp add: stream_defs recorder_def browser_defs tool_name_or_default_def)

section \<open>Session events\<close>

lemma stream_sessionId:
  "sessionId (dispatch_residual P handlers buf (dispatch_lines P handlers lines s))
     = (if session_event_ids (events_of P lines) = [] then sessionId s
        else last (session_event_ids (events_of P lines)))"
  using handlers_on_events [of "filter (\<lambda>e. \<not> dropped_at_end e) (events_of P [buf])"
      "dispatch_lines P handlers lines s"]
    handlers_on_events [of "events_of P lines" s]
  by (simp add: dispatch_residual_invoke dispatch_lines_invoke session_event_ids_not_dropped)

lemma stream_input:
  "input (dispatch_residual P handlers buf (dispatch_lines P handlers lines s)) = input s"
  using handlers_on_events [of "filter (\<lambda>e. \<not> dropped_at_end e) (events_of P [buf])"
      "dispatch_lines P handlers lines s"]
    handlers_on_events [of "events_of P lines" s]
  by (simp add: dispatch_residual_invoke dispatch_lines_invoke)

lemma stream_completes:
  assumes fr: "frame P (decoder_init P) [] cs = (lines, d, buf)"
    and st: "streams a = [AwaitFetch]"
  shows "run P (map (Net 0) (FetchResolves status True # map ReadChunk cs @ [ReadDone])) a
     = a\<lparr>chat := onComplete_handler
                     (dispatch_residual P handlers buf (dispatch_lines P handlers lines (chat a))),
         streams := []\<rparr>"
proof -
  have "run_stream P handlers AwaitFetch (FetchResolves status True # map ReadChunk cs @ [ReadDone]) (chat a)
      = Returned (onComplete_handler (dispatch_residual P handlers buf (dispatch_lines P handlers lines (chat a))))"
    using run_stream_done [OF fr, of handlers status "chat a"]
    by (simp add: sendChatMessage_def handlers_fields call0_def)
  then show ?thesis
    by (simp only: run_single [OF st] outcome.case)
qed

lemma stream_session_calls:
  assumes fr: "frame P (decoder_init P) [] cs = (lines, d, buf)"
  shows "\<exists>log. sendChatMessage P recorder (FetchResolves status True # map ReadChunk cs @ [ReadDone]) []
              = Returned log \<and> session_ids log = session_event_ids (events_of P lines)"
  by (simp add: run_stream_done [OF fr] dispatch_lines_invoke dispatch_residual_invoke
      fold_invoke_recorder recorder_fields call0_def session_ids_append session_ids_calls_of
      session_event_ids_not_dropped)

lemma frame_two_sessions:
  \<open>frame browser (decoder_init browser) [] [two_sessions] =
     ([ascii ''{"type":"session","content":"s1"}'', ascii ''{"type":"session","content":"s2"}''],
      utf8_init\<lparr>bom_seen := True\<rparr>, [])\<close>
  by (simp add: two_sessions_def frame_chunk_def browser_defs)

lemma two_sessions_ids:
  \<open>session_event_ids (events_of browser
     ([ascii ''{"type":"session","content":"s1"}'', ascii ''{"type":"session","content":"s2"}'']
      @ [[]]))
    = [Some (ascii ''s1''), Some (ascii ''s2'')]\<close>
  using session_parses
  by (simp add: events_of_Cons events_of_Nil decode_event_def browser_def trim_def
      is_white_space_def ascii_def)

text \<open>
  C9, as the program has it. Take a stream that ends and whose buffer at the end holds no
  \<open>session\<close> event. Then \<open>onSessionId\<close> is called once for each \<open>session\<close> event of the
  stream, in their order and with their ids: once when there is one, twice when there are
  two. Each call overwrites the session id, so after the stream the component holds the
  id of the last event, or the id it had when there was none. The request of the next
  send carries the id held, which after a stream with \<open>session\<close> events is the id of the
  last of them when that is a non-empty string, and no id otherwise.
\<close>

theorem session_id_last_event_wins:
  "frame P (decoder_init P) [] cs = (lines, d, buf) \<and> session_event_ids (events_of P [buf]) = []
   \<longrightarrow>
     (\<exists>log. sendChatMessage P recorder (FetchResolves status True # map ReadChunk cs @ [ReadDone]) []
              = Returned log \<and>
            session_ids log = session_event_ids (events_of P (lines @ [buf]))) \<and>
     (streams a = [AwaitFetch] \<longrightarrow>
        sessionId (chat (run P (map (Net 0) (FetchResolves status True # map ReadChunk cs @ [ReadDone])) a))
          = (if session_event_ids (events_of P (lines @ [buf])) = [] then sessionId (chat a)
             else last (session_event_ids (events_of P (lines @ [buf])))) \<and>
        (trim typed \<noteq> [] \<longrightarrow>
           requests (run P (map (Net 0) (FetchResolves status True # map ReadChunk cs @ [ReadDone])
                             @ [Type typed, Send now]) a)
             = requests a @
                 [make_payload (trim typed)
                    (if session_event_ids (events_of P (lines @ [buf])) = [] then sessionId (chat a)
                     else last (session_event_ids (events_of P (lines @ [buf]))))] \<and>
           (session_event_ids (events_of P (lines @ [buf])) \<noteq> [] \<longrightarrow>
              payload_session_id
                (last (requests (run P (map (Net 0) (FetchResolves status True # map ReadChunk cs @ [ReadDone])
                             @ [Type typed, Send now]) a)))
                = (case last (session_event_ids (events_of P (lines @ [buf]))) of
                     None \<Rightarrow> None
                   | Some i \<Rightarrow> if i = [] then None else Some i))))"
proof (intro impI, elim conjE)
  assume fr: "frame P (decoder_init P) [] cs = (lines, d, buf)"
    and res: "session_event_ids (events_of P [buf]) = []"
  let ?stream = "FetchResolves status True # map ReadChunk cs @ [ReadDone]"
  let ?ids = "session_event_ids (events_of P (lines @ [buf]))"
  have ids: "?ids = session_event_ids (events_of P lines)"
    by (simp add: events_of_append session_event_ids_append res)
  have log: "\<exists>log. sendChatMessage P recorder ?stream [] = Returned log \<and> session_ids log = ?ids"
    unfolding ids by (rule stream_session_calls [OF fr])
  have rest: "sessionId (chat (run P (map (Net 0) ?stream) a))
          = (if ?ids = [] then sessionId (chat a) else last ?ids) \<and>
        (trim typed \<noteq> [] \<longrightarrow>
           requests (run P (map (Net 0) ?stream @ [Type typed, Send now]) a)
             = requests a @
                 [make_payload (trim typed) (if ?ids = [] then sessionId (chat a) else last ?ids)] \<and>
           (?ids \<noteq> [] \<longrightarrow>
              payload_session_id
                (last (requests (run P (map (Net 0) ?stream @ [Type typed, Send now]) a)))
                = (case last ?ids of None \<Rightarrow> None | Some i \<Rightarrow> if i = [] then None else Some i)))"
    if st: "streams a = [AwaitFetch]"
  proof -
    let ?s = "dispatch_residual P handlers buf (dispatch_lines P handlers lines (chat a))"
    have a': "run P (map (Net 0) ?stream) a = a\<lparr>chat := onComplete_handler ?s, streams := []\<rparr>"
      by (rule stream_completes [OF fr st])
    have sid: "sessionId (chat (run P (map (Net 0) ?stream) a))
          = (if ?ids = [] then sessionId (chat a) else last ?ids)"
      unfolding a' ids by (simp add: onComplete_handler_def stream_sessionId)
    have req: "requests (run P (map (Net 0) ?stream @ [Type typed, Send now]) a)
             = requests a @
                 [make_payload (trim typed) (if ?ids = [] then sessionId (chat a) else last ?ids)]"
      if q: "trim typed \<noteq> []"
      unfolding run_append a' ids using q
      by (simp add: handleSend_def Let_def onComplete_handler_def stream_sessionId setMessages_def)
    show ?thesis
      using sid req by (simp add: make_payload_def)
  qed
  from log rest
  show "(\<exists>log. sendChatMessage P recorder ?stream [] = Returned log \<and> session_ids log = ?ids) \<and>
     (streams a = [AwaitFetch] \<longrightarrow>
        sessionId (chat (run P (map (Net 0) ?stream) a))
          = (if ?ids = [] then sessionId (chat a) else last ?ids) \<and>
        (trim typed \<noteq> [] \<longrightarrow>
           requests (run P (map (Net 0) ?stream @ [Type typed, Send now]) a)
             = requests a @
                 [make_payload (trim typed) (if ?ids = [] then sessionId (chat a) else last ?ids)] \<and>
           (?ids \<noteq> [] \<longrightarrow>
              payload_session_id
                (last (requests (run P (map (Net 0) ?stream @ [Type typed, Send now]) a)))
                = (case last ?ids of None \<Rightarrow> None | Some i \<Rightarrow> if i = [] then None else Some i))))"
    by blast
qed

text \<open>
  The claim as written fails on a stream with two \<open>session\<close> events: there are two calls,
  and the next request carries the id of the second event, not of the first. And an id
  that is the empty string is stored but not sent.
\<close>

theorem session_id_counterexample:
  \<open>sendChatMessage browser recorder [FetchResolves 200 True, ReadChunk two_sessions, ReadDone] []
     = Returned [OnSessionId (Some (ascii ''s1'')), OnSessionId (Some (ascii ''s2'')), OnComplete] \<and>
   requests (run browser
      [Net 0 (FetchResolves 200 True), Net 0 (ReadChunk two_sessions), Net 0 ReadDone,
       Type (ascii ''again''), Send 2] started)
     = [\<lparr>question = ascii ''hi'', payload_session_id = None\<rparr>,
        \<lparr>question = ascii ''again'', payload_session_id = Some (ascii ''s2'')\<rparr>] \<and>
   sessionId (chat (run browser
      [Net 0 (FetchResolves 200 True), Net 0 (ReadChunk empty_session), Net 0 ReadDone] started))
     = Some [] \<and>
   requests (run browser
      [Net 0 (FetchResolves 200 True), Net 0 (ReadChunk empty_session), Net 0 ReadDone,
       Type (ascii ''again''), Send 2] started)
     = [\<lparr>question = ascii ''hi'', payload_session_id = None\<rparr>,
        \<lparr>question = ascii ''again'', payload_session_id = None\<rparr>]\<close>
proof -
  have 1: \<open>sendChatMessage browser recorder [FetchResolves 200 True, ReadChunk two_sessions, ReadDone] []
     = Returned [OnSessionId (Some (ascii ''s1'')), OnSessionId (Some (ascii ''s2'')), OnComplete]\<close>
    using session_parses
    by (simp add: two_sessions_def stream_defs recorder_def browser_defs)
  have 2: \<open>requests (run browser
      [Net 0 (FetchResolves 200 True), Net 0 (ReadChunk two_sessions), Net 0 ReadDone,
       Type (ascii ''again''), Send 2] started)
     = [\<lparr>question = ascii ''hi'', payload_session_id = None\<rparr>,
        \<lparr>question = ascii ''again'', payload_session_id = Some (ascii ''s2'')\<rparr>]\<close>
    using session_parses
    by (simp add: started_eq two_sessions_def chat_defs stream_defs browser_defs Let_def
        make_payload_def trim_def is_white_space_def)
  have 3: \<open>sessionId (chat (run browser
      [Net 0 (FetchResolves 200 True), Net 0 (ReadChunk empty_session), Net 0 ReadDone] started))
     = Some []\<close>
    using session_parses
    by (simp add: started_eq empty_session_def chat_defs stream_defs browser_defs Let_def)
  have 4: \<open>requests (run browser
      [Net 0 (FetchResolves 200 True), Net 0 (ReadChunk empty_session), Net 0 ReadDone,
       Type (ascii ''again''), Send 2] started)
     = [\<lparr>question = ascii ''hi'', payload_session_id = None\<rparr>,
        \<lparr>question = ascii ''again'', payload_session_id = None\<rparr>]\<close>
    using session_parses
    by (simp add: started_eq empty_session_def chat_defs stream_defs browser_defs Let_def
        make_payload_def trim_def is_white_space_def)
  from 1 2 3 4 show ?thesis by blast
qed

text \<open>
  A run of the theorem: the stream with two \<open>session\<close> events, then a second send.
\<close>

theorem session_id_last_event_wins_witness:
  \<open>frame browser (decoder_init browser) [] [two_sessions] =
     ([ascii ''{"type":"session","content":"s1"}'', ascii ''{"type":"session","content":"s2"}''],
      utf8_init\<lparr>bom_seen := True\<rparr>, []) \<and>
   session_event_ids (events_of browser [[]]) = [] \<and>
   streams started = [AwaitFetch] \<and>
   sessionId (chat started) = None \<and>
   trim (ascii ''again'') = ascii ''again'' \<and>
   session_event_ids (events_of browser
     ([ascii ''{"type":"session","content":"s1"}'', ascii ''{"type":"session","content":"s2"}'']
      @ [[]]))
     = [Some (ascii ''s1''), Some (ascii ''s2'')] \<and>
   sessionId (chat (run browser
      (map (Net 0) (FetchResolves 200 True # map ReadChunk [two_sessions] @ [ReadDone])) started))
     = Some (ascii ''s2'') \<and>
   requests (run browser
      (map (Net 0) (FetchResolves 200 True # map ReadChunk [two_sessions] @ [ReadDone])
       @ [Type (ascii ''again''), Send 2]) started)
     = [\<lparr>question = ascii ''hi'', payload_session_id = None\<rparr>,
        \<lparr>question = ascii ''again'', payload_session_id = Some (ascii ''s2'')\<rparr>] \<and>
   payload_session_id (last (requests (run browser
      (map (Net 0) (FetchResolves 200 True # map ReadChunk [two_sessions] @ [ReadDone])
       @ [Type (ascii ''again''), Send 2]) started)))
     = Some (ascii ''s2'')\<close>
proof -
  have res: "session_event_ids (events_of browser [[]]) = []"
    by (simp add: events_of_Cons events_of_Nil decode_event_def trim_def)
  have st: "streams started = [AwaitFetch]"
    by (simp add: started_eq)
  have sid: "sessionId (chat started) = None"
    by (simp add: started_eq)
  have rq: "requests started = [\<lparr>question = ascii ''hi'', payload_session_id = None\<rparr>]"
    by (simp add: started_eq)
  have tr: "trim (ascii ''again'') = ascii ''again''"
    by (simp add: trim_def is_white_space_def ascii_def)
  have ne: "ascii ''again'' \<noteq> []" "ascii ''s2'' \<noteq> []"
    by (simp_all add: ascii_def)
  note T = session_id_last_event_wins
      [where P = browser and cs = "[two_sessions]"
         and lines = \<open>[ascii ''{"type":"session","content":"s1"}'',
                       ascii ''{"type":"session","content":"s2"}'']\<close>
         and d = "utf8_init\<lparr>bom_seen := True\<rparr>" and buf = "[]" and status = 200
         and a = started and typed = "ascii ''again''" and now = 2,
       unfolded two_sessions_ids tr rq sid]
  show ?thesis
    using T frame_two_sessions res st sid tr ne two_sessions_ids [simplified]
    by (simp add: make_payload_def)
qed

section \<open>The session list\<close>

lemma fill_map_keys:
  "set (map fst (fill_map m cs)) = set (map fst m) \<union> set (map session_id cs)"
  by (induction cs arbitrary: m) auto

lemma fill_map_distinct:
  "distinct (map fst m) \<Longrightarrow> distinct (map fst (fill_map m cs))"
  by (induction cs arbitrary: m) auto

lemma fill_map_entries:
  "(k, c) \<in> set (fill_map m cs) \<Longrightarrow>
     (k, c) \<in> set m \<or>
     (k \<notin> set (map fst m) \<and> k = session_id c \<and>
      find (\<lambda>x. session_id x = k) cs = Some c)"
proof (induction cs arbitrary: m)
  case Nil
  then show ?case by simp
next
  case (Cons x cs)
  let ?m' = "if session_id x \<in> set (map fst m) then m else m @ [(session_id x, x)]"
  from Cons.prems have "(k, c) \<in> set (fill_map ?m' cs)" by simp
  from Cons.IH [OF this] show ?case
    by (auto split: if_splits)
qed

lemma distinct_map_sort_key: "distinct (map f (sort_key g xs)) = distinct (map f xs)"
  by (simp only: distinct_map distinct_sort set_sort)

lemma sorted_desc: "sorted (map (\<lambda>c. - time_or_0 c) xs) \<Longrightarrow> sorted_wrt (\<lambda>a b. time_or_0 b \<le> time_or_0 a) xs"
  by (induction xs) auto

lemma first_index_Cons:
  "first_index (x # cs) k = (if session_id x = k then 0 else Suc (first_index cs k))"
  by (simp add: first_index_def)

lemma fill_map_in_order:
  "\<exists>ys. map snd (fill_map m cs) = map snd m @ ys \<and>
        (\<forall>y \<in> set ys. session_id y \<notin> set (map fst m)) \<and>
        sorted_wrt (\<lambda>a b. first_index cs (session_id a) < first_index cs (session_id b)) ys"
proof (induction cs arbitrary: m)
  case Nil
  then show ?case by simp
next
  case (Cons x cs)
  let ?R = "\<lambda>a b. first_index cs (session_id a) < first_index cs (session_id b)"
  let ?R' = "\<lambda>a b. first_index (x # cs) (session_id a) < first_index (x # cs) (session_id b)"
  show ?case
  proof (cases "session_id x \<in> set (map fst m)")
    case True
    from Cons.IH [of m] obtain ys where
      ys: "map snd (fill_map m cs) = map snd m @ ys"
      and new: "\<forall>y \<in> set ys. session_id y \<notin> set (map fst m)"
      and ord: "sorted_wrt ?R ys"
      by blast
    have ne: "session_id y \<noteq> session_id x" if "y \<in> set ys" for y
      using new True that by metis
    have "?R' a b" if "a \<in> set ys" "b \<in> set ys" "?R a b" for a b
      using that ne [of a] ne [of b] by (simp add: first_index_Cons)
    with ord have "sorted_wrt ?R' ys"
      by (rule sorted_wrt_mono_rel [rotated])
    with ys new True show ?thesis by auto
  next
    case False
    let ?m = "m @ [(session_id x, x)]"
    from Cons.IH [of ?m] obtain ys where
      ys: "map snd (fill_map ?m cs) = map snd ?m @ ys"
      and new: "\<forall>y \<in> set ys. session_id y \<notin> set (map fst ?m)"
      and ord: "sorted_wrt ?R ys"
      by blast
    have "?R' a b" if "a \<in> set ys" "b \<in> set ys" "?R a b" for a b
      using that new by (auto simp: first_index_Cons)
    with ord have "sorted_wrt ?R' ys"
      by (rule sorted_wrt_mono_rel [rotated])
    moreover have "\<forall>y \<in> set ys. ?R' x y"
      using new by (auto simp: first_index_Cons)
    ultimately have "sorted_wrt ?R' (x # ys)" by simp
    moreover have "\<forall>y \<in> set (x # ys). session_id y \<notin> set (map fst m)"
      using new False by auto
    moreover have "map snd (fill_map m (x # cs)) = map snd m @ x # ys"
      using ys False by simp
    ultimately show ?thesis by blast
  qed
qed

lemma sorted_wrt_filter_nth:
  "sorted_wrt R (filter Q xs) \<Longrightarrow> i < j \<Longrightarrow> j < length xs \<Longrightarrow> Q (xs ! i) \<Longrightarrow> Q (xs ! j)
   \<Longrightarrow> R (xs ! i) (xs ! j)"
proof (induction xs arbitrary: i j)
  case Nil
  then show ?case by simp
next
  case (Cons x xs)
  from Cons.prems obtain j' where j: "j = Suc j'" by (cases j) auto
  show ?case
  proof (cases i)
    case 0
    with Cons.prems j have "xs ! j' \<in> set (filter Q xs)" by auto
    with Cons.prems 0 j show ?thesis by auto
  next
    case (Suc i')
    from Cons.prems have "sorted_wrt R (filter Q xs)" by (auto split: if_splits)
    from Cons.IH [OF this, of i' j'] Cons.prems Suc j show ?thesis by auto
  qed
qed

lemmas conv_defs =
  conv_a5_def conv_b10_def conv_a1_def conv_undated_def conv_old_def conv_c5_def

lemma dedupe_example: "uniqueSessions [conv_a5, conv_b10, conv_a1] = [conv_b10, conv_a5]"
  by (simp add: uniqueSessions_def time_or_0_def conv_defs ascii_def)

lemma dedupe_example2:
  "uniqueSessions [conv_undated, conv_a5, conv_old, conv_c5, conv_b10, conv_a1]
     = [conv_b10, conv_a5, conv_c5, conv_undated, conv_old]"
  by (simp add: uniqueSessions_def time_or_0_def conv_defs ascii_def)

text \<open>
  C10, as the program has it. \<open>uniqueSessions\<close> has one entry for each session id of its
  input, and it is the first entry of that id in the input. The entries are in descending
  order of their timestamps, a missing timestamp counting as 0; of two entries of equal
  time the one whose session occurs first in the input comes first. An entry without a
  timestamp comes after every entry with a positive timestamp and before every entry with
  a negative one. From the summaries \<open>a\<close> at 5, \<open>b\<close> at 10 and \<open>a\<close> at 1 it makes \<open>b\<close> at
  10, \<open>a\<close> at 5.
\<close>

theorem uniqueSessions_first_wins_sorted:
  "distinct (map session_id (uniqueSessions cs)) \<and>
   set (map session_id (uniqueSessions cs)) = set (map session_id cs) \<and>
   (\<forall>c \<in> set (uniqueSessions cs). find (\<lambda>x. session_id x = session_id c) cs = Some c) \<and>
   sorted_wrt (\<lambda>a b. time_or_0 b \<le> time_or_0 a) (uniqueSessions cs) \<and>
   (\<forall>i j. i < j \<and> j < length (uniqueSessions cs) \<and>
          time_or_0 (uniqueSessions cs ! i) = time_or_0 (uniqueSessions cs ! j)
      \<longrightarrow> first_index cs (session_id (uniqueSessions cs ! i))
            < first_index cs (session_id (uniqueSessions cs ! j))) \<and>
   (\<forall>i j. i < length (uniqueSessions cs) \<and> j < length (uniqueSessions cs) \<and>
          conv_timestamp (uniqueSessions cs ! i) = None
      \<longrightarrow> (0 < time_or_0 (uniqueSessions cs ! j) \<longrightarrow> j < i) \<and>
          (time_or_0 (uniqueSessions cs ! j) < 0 \<longrightarrow> i < j)) \<and>
   uniqueSessions [conv_a5, conv_b10, conv_a1] = [conv_b10, conv_a5]"
proof -
  let ?firsts = "map snd (fill_map [] cs)"
  let ?out = "uniqueSessions cs"
  have ent: "(k, c) \<in> set (fill_map [] cs) \<Longrightarrow>
      k = session_id c \<and> find (\<lambda>x. session_id x = k) cs = Some c" for k c
    using fill_map_entries [of k c "[]" cs] by auto
  have ids: "map (session_id \<circ> snd) (fill_map [] cs) = map fst (fill_map [] cs)"
  proof -
    have "session_id (snd p) = fst p" if "p \<in> set (fill_map [] cs)" for p
      using ent [of "fst p" "snd p"] that by simp
    then show ?thesis by simp
  qed
  have d: "distinct (map session_id ?firsts)"
    using fill_map_distinct [of "[]" cs] by (simp add: ids)
  have 1: "distinct (map session_id ?out)"
    using d by (simp only: uniqueSessions_def distinct_map_sort_key)
  have 2: "set (map session_id ?out) = set (map session_id cs)"
  proof -
    have "set (map session_id ?out) = set (map (session_id \<circ> snd) (fill_map [] cs))"
      by (simp add: uniqueSessions_def image_comp)
    also have "\<dots> = set (map fst (fill_map [] cs))"
      by (simp only: ids)
    also have "\<dots> = set (map session_id cs)"
      using fill_map_keys [of "[]" cs] by simp
    finally show ?thesis .
  qed
  have 3: "\<forall>c \<in> set ?out. find (\<lambda>x. session_id x = session_id c) cs = Some c"
  proof
    fix c assume "c \<in> set ?out"
    then obtain k where "(k, c) \<in> set (fill_map [] cs)"
      by (auto simp: uniqueSessions_def)
    with ent show "find (\<lambda>x. session_id x = session_id c) cs = Some c" by blast
  qed
  have s: "sorted (map (\<lambda>c. - time_or_0 c) ?out)"
    by (simp add: uniqueSessions_def)
  have 4: "sorted_wrt (\<lambda>a b. time_or_0 b \<le> time_or_0 a) ?out"
    using s by (rule sorted_desc)
  have nth: "time_or_0 (?out ! j) \<le> time_or_0 (?out ! i)" if "i < j" "j < length ?out" for i j
    using 4 that by (simp add: sorted_wrt_iff_nth_less)
  let ?R = "\<lambda>a b. first_index cs (session_id a) < first_index cs (session_id b)"
  have ord: "sorted_wrt ?R ?firsts"
    using fill_map_in_order [of "[]" cs] by auto
  have 5: "\<forall>i j. i < j \<and> j < length ?out \<and> time_or_0 (?out ! i) = time_or_0 (?out ! j)
      \<longrightarrow> ?R (?out ! i) (?out ! j)"
  proof (intro allI impI)
    fix i j
    assume h: "i < j \<and> j < length ?out \<and> time_or_0 (?out ! i) = time_or_0 (?out ! j)"
    define t where "t = time_or_0 (?out ! j)"
    have "filter (\<lambda>c. - time_or_0 c = - t) ?out = filter (\<lambda>c. - time_or_0 c = - t) ?firsts"
      unfolding uniqueSessions_def by (rule sort_key_stable)
    then have "filter (\<lambda>c. time_or_0 c = t) ?out = filter (\<lambda>c. time_or_0 c = t) ?firsts"
      by simp
    moreover have "sorted_wrt ?R (filter (\<lambda>c. time_or_0 c = t) ?firsts)"
      using ord by (rule sorted_wrt_filter)
    ultimately have srt: "sorted_wrt ?R (filter (\<lambda>c. time_or_0 c = t) ?out)"
      by simp
    from h have ij: "i < j" "j < length ?out" by blast+
    from h have ti: "time_or_0 (?out ! i) = t" by (simp only: t_def)
    have tj: "time_or_0 (?out ! j) = t" by (simp only: t_def)
    show "?R (?out ! i) (?out ! j)"
      by (rule sorted_wrt_filter_nth [OF srt ij ti tj])
  qed
  have 6: "\<forall>i j. i < length ?out \<and> j < length ?out \<and> conv_timestamp (?out ! i) = None
      \<longrightarrow> (0 < time_or_0 (?out ! j) \<longrightarrow> j < i) \<and> (time_or_0 (?out ! j) < 0 \<longrightarrow> i < j)"
  proof (intro allI impI conjI)
    fix i j
    assume h: "i < length ?out \<and> j < length ?out \<and> conv_timestamp (?out ! i) = None"
    then have z: "time_or_0 (?out ! i) = 0"
      by (simp add: time_or_0_def)
    {
      assume p: "0 < time_or_0 (?out ! j)"
      show "j < i"
      proof (rule ccontr)
        assume "\<not> j < i"
        with p z have "i < j" by (cases "i = j") auto
        from nth [OF this] h p z show False by simp
      qed
    }
    {
      assume n: "time_or_0 (?out ! j) < 0"
      show "i < j"
      proof (rule ccontr)
        assume "\<not> i < j"
        with n z have "j < i" by (cases "i = j") auto
        from nth [OF this] h n z show False by simp
      qed
    }
  qed
  show ?thesis
    by (intro conjI) (fact 1, fact 2, fact 3, fact 4, fact 5, fact 6, fact dedupe_example)
qed

text \<open>
  Sessions without a timestamp are not last: one with a negative timestamp follows them,
  whichever comes first in the input.
\<close>

theorem uniqueSessions_undated_counterexample:
  "conv_timestamp conv_undated = None \<and> conv_timestamp conv_old = Some (- 3) \<and>
   uniqueSessions [conv_undated, conv_old] = [conv_undated, conv_old] \<and>
   uniqueSessions [conv_old, conv_undated] = [conv_undated, conv_old]"
  by (simp add: uniqueSessions_def time_or_0_def conv_defs ascii_def)

text \<open>
  A run of the theorem: six summaries, two of the same session, two of equal time, one
  without a timestamp and one with a negative timestamp.
\<close>

theorem uniqueSessions_witness:
  "uniqueSessions [conv_undated, conv_a5, conv_old, conv_c5, conv_b10, conv_a1]
     = [conv_b10, conv_a5, conv_c5, conv_undated, conv_old] \<and>
   conv_a5 \<in> set (uniqueSessions [conv_undated, conv_a5, conv_old, conv_c5, conv_b10, conv_a1]) \<and>
   find (\<lambda>x. session_id x = session_id conv_a5)
     [conv_undated, conv_a5, conv_old, conv_c5, conv_b10, conv_a1] = Some conv_a5 \<and>
   (1::nat) < 2 \<and>
   2 < length (uniqueSessions [conv_undated, conv_a5, conv_old, conv_c5, conv_b10, conv_a1]) \<and>
   time_or_0 (uniqueSessions [conv_undated, conv_a5, conv_old, conv_c5, conv_b10, conv_a1] ! 1)
     = time_or_0 (uniqueSessions [conv_undated, conv_a5, conv_old, conv_c5, conv_b10, conv_a1] ! 2) \<and>
   first_index [conv_undated, conv_a5, conv_old, conv_c5, conv_b10, conv_a1]
       (session_id (uniqueSessions [conv_undated, conv_a5, conv_old, conv_c5, conv_b10, conv_a1] ! 1))
     < first_index [conv_undated, conv_a5, conv_old, conv_c5, conv_b10, conv_a1]
       (session_id (uniqueSessions [conv_undated, conv_a5, conv_old, conv_c5, conv_b10, conv_a1] ! 2)) \<and>
   first_index [conv_undated, conv_a5, conv_old, conv_c5, conv_b10, conv_a1] (session_id conv_a5) = 1 \<and>
   first_index [conv_undated, conv_a5, conv_old, conv_c5, conv_b10, conv_a1] (session_id conv_c5) = 3 \<and>
   4 < length (uniqueSessions [conv_undated, conv_a5, conv_old, conv_c5, conv_b10, conv_a1]) \<and>
   conv_timestamp (uniqueSessions [conv_undated, conv_a5, conv_old, conv_c5, conv_b10, conv_a1] ! 3)
     = None \<and>
   0 < time_or_0 (uniqueSessions [conv_undated, conv_a5, conv_old, conv_c5, conv_b10, conv_a1] ! 0) \<and>
   time_or_0 (uniqueSessions [conv_undated, conv_a5, conv_old, conv_c5, conv_b10, conv_a1] ! 4) < 0"
proof -
  let ?cs = "[conv_undated, conv_a5, conv_old, conv_c5, conv_b10, conv_a1]"
  note T = uniqueSessions_first_wins_sorted [of ?cs]
  note firsts = T [THEN conjunct2, THEN conjunct2, THEN conjunct1, rule_format]
  note ties = T [THEN conjunct2, THEN conjunct2, THEN conjunct2, THEN conjunct2, THEN conjunct1,
      rule_format, of 1 2]
  have mem: "conv_a5 \<in> set (uniqueSessions ?cs)"
    unfolding dedupe_example2 by simp
  have f: "find (\<lambda>x. session_id x = session_id conv_a5) ?cs = Some conv_a5"
    by (rule firsts [OF mem])
  have n: "(1::nat) < 2" by simp
  have l: "2 < length (uniqueSessions ?cs)" "4 < length (uniqueSessions ?cs)"
    unfolding dedupe_example2 by simp_all
  have eq: "time_or_0 (uniqueSessions ?cs ! 1) = time_or_0 (uniqueSessions ?cs ! 2)"
    unfolding dedupe_example2 by (simp add: time_or_0_def conv_defs)
  have tie: "first_index ?cs (session_id (uniqueSessions ?cs ! 1))
      < first_index ?cs (session_id (uniqueSessions ?cs ! 2))"
    using ties n l(1) eq by blast
  have i: "first_index ?cs (session_id conv_a5) = 1" "first_index ?cs (session_id conv_c5) = 3"
    by (simp_all add: first_index_def conv_defs ascii_def)
  have u: "conv_timestamp (uniqueSessions ?cs ! 3) = None"
    "0 < time_or_0 (uniqueSessions ?cs ! 0)" "time_or_0 (uniqueSessions ?cs ! 4) < 0"
    unfolding dedupe_example2 by (simp_all add: time_or_0_def conv_defs)
  note all = dedupe_example2 mem f n l eq tie i u
  show ?thesis
    by (intro conjI) (fact all)+
qed

end
